theory Spec2Isabelle
  imports Main
begin

section \<open>Strings\<close>

text \<open>
  A JavaScript string is a sequence of UTF-16 code units.  A code unit is modelled as a
  natural number; \<open>js\<close> turns an ASCII literal of the theory into the code units of the
  same JavaScript literal.
\<close>

type_synonym cu = nat
type_synonym jsstring = "cu list"

definition js :: "string \<Rightarrow> jsstring" where
  "js s = map of_char s"

text \<open>
  \<^verbatim>\<open>WhiteSpace\<close> and \<^verbatim>\<open>LineTerminator\<close> of ECMAScript: the characters of \<^verbatim>\<open>\s\<close> and of
  \<^verbatim>\<open>String.prototype.trim\<close>, and the characters \<^verbatim>\<open>.\<close> refuses.
\<close>

definition isLineTerminator :: "cu \<Rightarrow> bool" where
  "isLineTerminator c = (c = 10 \<or> c = 13 \<or> c = 8232 \<or> c = 8233)"

definition isWhiteSpace :: "cu \<Rightarrow> bool" where
  "isWhiteSpace c = (c = 9 \<or> c = 10 \<or> c = 11 \<or> c = 12 \<or> c = 13 \<or> c = 32 \<or> c = 160 \<or> c = 5760
     \<or> (8192 \<le> c \<and> c \<le> 8202) \<or> c = 8232 \<or> c = 8233 \<or> c = 8239 \<or> c = 8287 \<or> c = 12288
     \<or> c = 65279)"

definition js_trim :: "jsstring \<Rightarrow> jsstring" where
  "js_trim s = rev (dropWhile isWhiteSpace (rev (dropWhile isWhiteSpace s)))"

definition startsWith :: "jsstring \<Rightarrow> jsstring \<Rightarrow> bool" where
  "startsWith s p = (take (length p) s = p)"

text \<open>A template literal prints \<^verbatim>\<open>undefined\<close> for a value that is not there.\<close>

definition to_str :: "jsstring option \<Rightarrow> jsstring" where
  "to_str v = (case v of None \<Rightarrow> js ''undefined'' | Some s \<Rightarrow> s)"

section \<open>Data model of \<^verbatim>\<open>components/FileUpload.tsx\<close>\<close>

text \<open>
  \<^verbatim>\<open>interface Visualization { id; description; code; status; error? }\<close> and
  \<^verbatim>\<open>interface LearningTab { id; title; content; visualizations; fileData? }\<close>.
  An optional field, and the \<^verbatim>\<open>status\<close> that an entry read back from storage may
  lack, is an \<open>option\<close>: \<open>None\<close> is JavaScript's \<^verbatim>\<open>undefined\<close>.  The status is kept as
  the string the object holds at run time.
\<close>

record Visualization =
  v_id :: jsstring
  v_description :: jsstring
  v_code :: jsstring
  v_status :: "jsstring option"
  v_error :: "jsstring option"

record LearningTab =
  t_id :: jsstring
  t_title :: jsstring
  t_content :: jsstring
  t_visualizations :: "Visualization list"
  t_fileData :: "jsstring option"

section \<open>Regular expressions of JavaScript\<close>

text \<open>
  The regular expressions of the source are written as terms of \<open>re\<close> and run by a
  backtracking matcher.  \<open>CSet neg items\<close> is a character class (\<open>neg\<close> for \<^verbatim>\<open>[^...]\<close>),
  \<open>Star greedy r\<close> is \<^verbatim>\<open>r*\<close> or \<^verbatim>\<open>r*?\<close>, \<open>Group k r\<close> is the \<open>k\<close>-th capturing group,
  \<open>Bol\<close> and \<open>Eol\<close> are \<^verbatim>\<open>^\<close> and \<^verbatim>\<open>$\<close>, \<open>Ahead True r\<close> is \<^verbatim>\<open>(?=r)\<close> and
  \<open>Ahead False r\<close> is \<^verbatim>\<open>(?!r)\<close>.
\<close>

datatype citem = One cu | Range cu cu | SpaceCls | NonSpaceCls | DigitCls

datatype re =
    Lit jsstring
  | CSet bool "citem list"
  | Dot
  | Seq re re
  | Alt re re
  | Group nat re
  | Star bool re
  | Bol
  | Eol
  | Ahead bool re

record flags =
  ignoreCase :: bool
  multiline :: bool

definition plain :: flags where "plain = \<lparr> ignoreCase = False, multiline = False \<rparr>"
definition flag_i :: flags where "flag_i = \<lparr> ignoreCase = True, multiline = False \<rparr>"
definition flag_m :: flags where "flag_m = \<lparr> ignoreCase = False, multiline = True \<rparr>"

text \<open>
  Under the flag \<^verbatim>\<open>i\<close> two characters match when their canonical forms are equal.  The
  patterns of the source name ASCII characters only, and for those the canonical form is
  the ASCII upper-case letter: a character outside ASCII never canonicalises into ASCII.
\<close>

definition ascii_upper :: "cu \<Rightarrow> cu" where
  "ascii_upper c = (if 97 \<le> c \<and> c \<le> 122 then c - 32 else c)"

definition ascii_lower :: "cu \<Rightarrow> cu" where
  "ascii_lower c = (if 65 \<le> c \<and> c \<le> 90 then c + 32 else c)"

definition ch_eq :: "flags \<Rightarrow> cu \<Rightarrow> cu \<Rightarrow> bool" where
  "ch_eq f a x = (if ignoreCase f then ascii_upper a = ascii_upper x else a = x)"

fun item_has :: "citem \<Rightarrow> cu \<Rightarrow> bool" where
  "item_has (One a) c = (c = a)"
| "item_has (Range a b) c = (a \<le> c \<and> c \<le> b)"
| "item_has SpaceCls c = isWhiteSpace c"
| "item_has NonSpaceCls c = (\<not> isWhiteSpace c)"
| "item_has DigitCls c = (48 \<le> c \<and> c \<le> 57)"

definition in_items :: "flags \<Rightarrow> citem list \<Rightarrow> cu \<Rightarrow> bool" where
  "in_items f its c = (\<exists>it \<in> set its. item_has it c \<or>
      (ignoreCase f \<and> (item_has it (ascii_upper c) \<or> item_has it (ascii_lower c))))"

text \<open>
  The matcher runs on a position of the subject: the characters before it, last one
  first, and the characters from it on.  It returns every way the expression can match
  there, in the order in which backtracking tries them, each with the captures it sets and
  the position it ends at: the head of the list is the match JavaScript reports.  An
  iteration of \<open>Star\<close> resets the captures of its body and must consume a character.
\<close>

type_synonym caps = "nat \<Rightarrow> jsstring option"
type_synonym pos = "jsstring \<times> jsstring"

fun lit_match :: "flags \<Rightarrow> jsstring \<Rightarrow> pos \<Rightarrow> pos option" where
  "lit_match f [] st = Some st"
| "lit_match f (a # w) (rp, []) = None"
| "lit_match f (a # w) (rp, x # s) = (if ch_eq f a x then lit_match f w (x # rp, s) else None)"

fun groups :: "re \<Rightarrow> nat list" where
  "groups (Seq a b) = groups a @ groups b"
| "groups (Alt a b) = groups a @ groups b"
| "groups (Group k r) = k # groups r"
| "groups (Star g r) = groups r"
| "groups (Ahead p r) = groups r"
| "groups _ = []"

definition clear :: "nat list \<Rightarrow> caps \<Rightarrow> caps" where
  "clear ks c = (\<lambda>k. if k \<in> set ks then None else c k)"

definition no_caps :: caps where
  "no_caps = (\<lambda>k. None)"

fun ms :: "flags \<Rightarrow> re \<Rightarrow> caps \<Rightarrow> pos \<Rightarrow> (caps \<times> pos) list" where
  "ms f (Lit w) c st = (case lit_match f w st of None \<Rightarrow> [] | Some st' \<Rightarrow> [(c, st')])"
| "ms f (CSet neg its) c (rp, s) = (case s of [] \<Rightarrow> [] | x # s' \<Rightarrow>
      if in_items f its x \<noteq> neg then [(c, (x # rp, s'))] else [])"
| "ms f Dot c (rp, s) = (case s of [] \<Rightarrow> [] | x # s' \<Rightarrow>
      if isLineTerminator x then [] else [(c, (x # rp, s'))])"
| "ms f (Seq a b) c st = concat (map (\<lambda>(c', st'). ms f b c' st') (ms f a c st))"
| "ms f (Alt a b) c st = ms f a c st @ ms f b c st"
| "ms f (Group k r) c (rp, s) =
     map (\<lambda>(c', (rp', s')). (c'(k := Some (take (length s - length s') s)), (rp', s')))
       (ms f r c (rp, s))"
| "ms f (Star g r) c (rp, s) =
     (let more = concat (map (\<lambda>(c', (rp', s')).
                    if length s' < length s then ms f (Star g r) c' (rp', s') else [])
                  (ms f r (clear (groups r) c) (rp, s)))
      in if g then more @ [(c, (rp, s))] else (c, (rp, s)) # more)"
| "ms f Bol c (rp, s) = (case rp of [] \<Rightarrow> [(c, (rp, s))] | x # _ \<Rightarrow>
      if multiline f \<and> isLineTerminator x then [(c, (rp, s))] else [])"
| "ms f Eol c (rp, s) = (case s of [] \<Rightarrow> [(c, (rp, s))] | x # _ \<Rightarrow>
      if multiline f \<and> isLineTerminator x then [(c, (rp, s))] else [])"
| "ms f (Ahead pos r) c st = (case ms f r c st of
      [] \<Rightarrow> (if pos then [] else [(c, st)])
    | (c', _) # _ \<Rightarrow> (if pos then [(c', st)] else []))"

text \<open>\<^verbatim>\<open>r+\<close> and \<^verbatim>\<open>r+?\<close>, \<^verbatim>\<open>r?\<close>, and a sequence of more than two expressions.\<close>

definition plus :: "bool \<Rightarrow> re \<Rightarrow> re" where
  "plus g r = Seq r (Star g r)"

definition opt :: "re \<Rightarrow> re" where
  "opt r = Alt r (Lit [])"

fun seqs :: "re list \<Rightarrow> re" where
  "seqs [] = Lit []"
| "seqs [r] = r"
| "seqs (r # rs) = Seq r (seqs rs)"

text \<open>
  What a match hands to the caller: the matched text, the captures, and the subject
  before and after the match.
\<close>

record rmatch =
  m_text :: jsstring
  m_caps :: caps
  m_pre :: jsstring
  m_post :: jsstring

definition first_match :: "flags \<Rightarrow> re \<Rightarrow> pos \<Rightarrow> rmatch option" where
  "first_match f r st = (case ms f r no_caps st of
      [] \<Rightarrow> None
    | (c, (rp', s')) # _ \<Rightarrow>
        Some \<lparr> m_text = take (length (snd st) - length s') (snd st), m_caps = c,
               m_pre = rev (fst st), m_post = s' \<rparr>)"

text \<open>\<^verbatim>\<open>RegExp.prototype.test\<close> without the flag \<^verbatim>\<open>g\<close>: the leftmost position with a match.\<close>

fun search :: "flags \<Rightarrow> re \<Rightarrow> jsstring \<Rightarrow> jsstring \<Rightarrow> rmatch option" where
  "search f r rp [] = first_match f r (rp, [])"
| "search f r rp (x # s) = (case first_match f r (rp, x # s) of
      Some m \<Rightarrow> Some m
    | None \<Rightarrow> search f r (x # rp) s)"

definition regex_test :: "flags \<Rightarrow> re \<Rightarrow> jsstring \<Rightarrow> bool" where
  "regex_test f r s = (search f r [] s \<noteq> None)"

text \<open>
  \<^verbatim>\<open>String.prototype.replace\<close> with a regular expression that has the flag \<^verbatim>\<open>g\<close> and a
  replacement function.  The subject is read from left to right; at a position with a
  match the function's result is emitted and the matched characters are skipped (the
  counter says how many are left to skip); after an empty match one character is copied.
  The source's replacement functions also set a flag, so a replacement function returns its
  string and whether it set the flag, and the scan returns whether any call did.
\<close>

fun scan :: "flags \<Rightarrow> re \<Rightarrow> (rmatch \<Rightarrow> jsstring \<times> bool) \<Rightarrow> nat \<Rightarrow> jsstring \<Rightarrow> jsstring
    \<Rightarrow> jsstring \<times> bool" where
  "scan f r cb k rp [] =
     (if k = 0 then (case first_match f r (rp, []) of None \<Rightarrow> ([], False) | Some m \<Rightarrow> cb m)
      else ([], False))"
| "scan f r cb (Suc k) rp (x # s) = scan f r cb k (x # rp) s"
| "scan f r cb 0 rp (x # s) = (case first_match f r (rp, x # s) of
      None \<Rightarrow> (let (out, fl) = scan f r cb 0 (x # rp) s in (x # out, fl))
    | Some m \<Rightarrow>
        (let (rep, fl1) = cb m;
             (out, fl2) = (if m_text m = []
                           then (let (o', f') = scan f r cb 0 (x # rp) s in (x # o', f'))
                           else scan f r cb (length (m_text m) - 1) (x # rp) s)
         in (rep @ out, fl1 \<or> fl2)))"

definition replace_cb :: "flags \<Rightarrow> re \<Rightarrow> (rmatch \<Rightarrow> jsstring \<times> bool) \<Rightarrow> jsstring \<Rightarrow> jsstring \<times> bool" where
  "replace_cb f r cb s = scan f r cb 0 [] s"

section \<open>\<^verbatim>\<open>services/claude.ts\<close>: the Code Normalizer\<close>

abbreviation ws :: re where
  "ws \<equiv> CSet False [SpaceCls]"

text \<open>\<^verbatim>\<open>(\([^)]*\)|)\<close>, without its parentheses.\<close>

definition params_body :: re where
  "params_body = Alt (seqs [Lit (js ''(''), Star True (CSet True [One 41]), Lit (js '')'')]) (Lit [])"

text \<open>
  \<^verbatim>\<open>/function\s+App\s*\(|const\s+App\s*=\s*(\([^)]*\)|)\s*=>|class\s+App\s+extends\s+React\.Component/i\<close>
\<close>

definition has_app_re :: re where
  "has_app_re =
     Alt (seqs [Lit (js ''function''), plus True ws, Lit (js ''App''), Star True ws, Lit (js ''('')])
    (Alt (seqs [Lit (js ''const''), plus True ws, Lit (js ''App''), Star True ws, Lit (js ''=''),
                Star True ws, Group 1 params_body, Star True ws, Lit (js ''=>'')])
         (seqs [Lit (js ''class''), plus True ws, Lit (js ''App''), plus True ws, Lit (js ''extends''),
                plus True ws, Lit (js ''React.Component'')]))"

text \<open>\<^verbatim>\<open>([A-Z][a-zA-Z0-9]*)\<close>\<close>

definition name_re :: re where
  "name_re = Group 1 (Seq (CSet False [Range 65 90])
                          (Star True (CSet False [Range 97 122, Range 65 90, Range 48 57])))"

text \<open>\<^verbatim>\<open>/function\s+([A-Z][a-zA-Z0-9]*)\s*\(/g\<close>\<close>

definition function_re :: re where
  "function_re = seqs [Lit (js ''function''), plus True ws, name_re, Star True ws, Lit (js ''('')]"

text \<open>\<^verbatim>\<open>/const\s+([A-Z][a-zA-Z0-9]*)\s*=\s*(\([^)]*\)|)\s*=>/g\<close>\<close>

definition arrow_re :: re where
  "arrow_re = seqs [Lit (js ''const''), plus True ws, name_re, Star True ws, Lit (js ''=''),
                    Star True ws, Group 2 params_body, Star True ws, Lit (js ''=>'')]"

text \<open>\<^verbatim>\<open>/class\s+([A-Z][a-zA-Z0-9]*)\s+extends\s+React\.Component/g\<close>\<close>

definition class_re :: re where
  "class_re = seqs [Lit (js ''class''), plus True ws, name_re, plus True ws, Lit (js ''extends''),
                    plus True ws, Lit (js ''React.Component'')]"

text \<open>
  The test every replacement function starts with:
  \<^verbatim>\<open>componentName === 'App' || match.trim().startsWith('//') || match.trim().startsWith('*')\<close>.
\<close>

definition keep_match :: "rmatch \<Rightarrow> bool" where
  "keep_match m = (m_caps m 1 = Some (js ''App'') \<or> startsWith (js_trim (m_text m)) (js ''//'')
                    \<or> startsWith (js_trim (m_text m)) (js ''*''))"

text \<open>
  \<^verbatim>\<open>renameComponentToApp\<close>.  Only the first replacement function sets
  \<^verbatim>\<open>functionMatched\<close>; the second replacement runs when the flag is not set, the third
  one always.
\<close>

definition renameComponentToApp :: "jsstring \<Rightarrow> jsstring" where
  "renameComponentToApp code =
    (if regex_test flag_i has_app_re code then code
     else
       let (code1, functionMatched) = replace_cb plain function_re
              (\<lambda>m. if keep_match m then (m_text m, False) else (js ''function App('', True)) code;
           code2 = (if \<not> functionMatched
                    then fst (replace_cb plain arrow_re
                      (\<lambda>m. if keep_match m then (m_text m, False)
                           else (js ''const App = '' @ to_str (m_caps m 2) @ js '' =>'', False)) code1)
                    else code1);
           code3 = fst (replace_cb plain class_re
                      (\<lambda>m. if keep_match m then (m_text m, False)
                           else (js ''class App extends React.Component'', False)) code2)
       in code3)"

section \<open>Replacement strings\<close>

text \<open>
  \<^verbatim>\<open>GetSubstitution\<close> of ECMAScript: what a replacement \<^emph>\<open>string\<close> stands for.  \<^verbatim>\<open>$$\<close> is a
  dollar, \<^verbatim>\<open>$&\<close> the match, \<^verbatim>\<open>$`\<close> the subject before it, \<^verbatim>\<open>$'\<close> the subject after it,
  \<^verbatim>\<open>$n\<close> and \<^verbatim>\<open>$nn\<close> the capture of that number when the expression has that many groups;
  any other dollar stands for itself.  \<open>n\<close> is the number of capturing groups, 0 when the
  pattern is a string.
\<close>

definition is_digit :: "cu \<Rightarrow> bool" where
  "is_digit c = (48 \<le> c \<and> c \<le> 57)"

definition cap_text :: "caps \<Rightarrow> nat \<Rightarrow> jsstring" where
  "cap_text c k = (case c k of None \<Rightarrow> [] | Some w \<Rightarrow> w)"

fun get_substitution :: "jsstring \<Rightarrow> jsstring \<Rightarrow> jsstring \<Rightarrow> nat \<Rightarrow> caps \<Rightarrow> jsstring \<Rightarrow> jsstring" where
  "get_substitution matched preceding following n c [] = []"
| "get_substitution matched preceding following n c [x] = [x]"
| "get_substitution matched preceding following n c (x # y # t) =
    (if x \<noteq> 36 then x # get_substitution matched preceding following n c (y # t)
     else if y = 36 then 36 # get_substitution matched preceding following n c t
     else if y = 38 then matched @ get_substitution matched preceding following n c t
     else if y = 96 then preceding @ get_substitution matched preceding following n c t
     else if y = 39 then following @ get_substitution matched preceding following n c t
     else if is_digit y then
       (case t of
          z # t' \<Rightarrow>
            if is_digit z \<and> 10 * (y - 48) + (z - 48) \<le> n
            then (if 1 \<le> 10 * (y - 48) + (z - 48) then cap_text c (10 * (y - 48) + (z - 48))
                  else [36, y, z]) @ get_substitution matched preceding following n c t'
            else (if 1 \<le> y - 48 \<and> y - 48 \<le> n then cap_text c (y - 48) else [36, y])
                   @ get_substitution matched preceding following n c t
        | [] \<Rightarrow> (if 1 \<le> y - 48 \<and> y - 48 \<le> n then cap_text c (y - 48) else [36, y]))
     else 36 # get_substitution matched preceding following n c (y # t))"

text \<open>\<^verbatim>\<open>subject.replace(/re/g, 'template')\<close>\<close>

definition replace_re :: "flags \<Rightarrow> re \<Rightarrow> nat \<Rightarrow> jsstring \<Rightarrow> jsstring \<Rightarrow> jsstring" where
  "replace_re f r n template s =
     fst (replace_cb f r
       (\<lambda>m. (get_substitution (m_text m) (m_pre m) (m_post m) n (m_caps m) template, False)) s)"

text \<open>
  \<^verbatim>\<open>subject.replace('pattern', 'replacement')\<close>: the first occurrence of the pattern, if
  there is one, is replaced, and the replacement goes through \<open>get_substitution\<close> as well.
\<close>

fun find_sub :: "jsstring \<Rightarrow> jsstring \<Rightarrow> jsstring \<Rightarrow> (jsstring \<times> jsstring) option" where
  "find_sub pat rp [] = (if pat = [] then Some (rp, []) else None)"
| "find_sub pat rp (x # s) =
     (if startsWith (x # s) pat then Some (rp, drop (length pat) (x # s))
      else find_sub pat (x # rp) s)"

definition replace_str :: "jsstring \<Rightarrow> jsstring \<Rightarrow> jsstring \<Rightarrow> jsstring" where
  "replace_str subject pat replacement =
     (case find_sub pat [] subject of
        None \<Rightarrow> subject
      | Some (rp, following) \<Rightarrow>
          rev rp @ get_substitution pat (rev rp) following 0 no_caps replacement @ following)"

section \<open>\<^verbatim>\<open>components/FileUpload.tsx\<close>: Markdown conversion\<close>

text \<open>\<^verbatim>\<open>.+\<close> and \<^verbatim>\<open>.+?\<close>\<close>

abbreviation some :: re where "some \<equiv> plus True Dot"
abbreviation some_lazy :: re where "some_lazy \<equiv> plus False Dot"

text \<open>
  \<^verbatim>\<open>/^# (.+)$/gm\<close> and the like for a line that starts with the given characters:
  \<^verbatim>\<open>^\<close>, the characters, \<^verbatim>\<open>(.+)\<close>, \<^verbatim>\<open>$\<close>.
\<close>

definition line_re :: "jsstring \<Rightarrow> re" where
  "line_re start = seqs [Bol, Lit start, Group 1 some, Eol]"

text \<open>\<^verbatim>\<open>(<li>.+<\/li>)\<close>\<close>

definition li_re :: re where
  "li_re = Group 1 (seqs [Lit (js ''<li>''), some, Lit (js ''</li>'')])"

text \<open>\<^verbatim>\<open>(#|<h|<ul|<ol|<div class="code-block"|<p)\<close>\<close>

definition block_start_re :: re where
  \<open>block_start_re = Group 1 (Alt (Lit (js ''#'')) (Alt (Lit (js ''<h'')) (Alt (Lit (js ''<ul''))
     (Alt (Lit (js ''<ol'')) (Alt (Lit (js ''<div class="code-block"'')) (Lit (js ''<p'')))))))\<close>

definition markdownToHtml :: "jsstring \<Rightarrow> jsstring" where
  \<open>markdownToHtml markdown =
    (let html = markdown;
         html = replace_re flag_m (line_re (js ''# '')) 1 (js ''<h1>$1</h1>'') html;
         html = replace_re flag_m (line_re (js ''## '')) 1 (js ''<h2>$1</h2>'') html;
         html = replace_re flag_m (line_re (js ''### '')) 1 (js ''<h3>$1</h3>'') html;
         html = replace_re flag_m (line_re (js ''#### '')) 1 (js ''<h4>$1</h4>'') html;
         html = replace_re flag_m (line_re (js ''##### '')) 1 (js ''<h5>$1</h5>'') html;
         html = replace_re flag_m (line_re (js ''###### '')) 1 (js ''<h6>$1</h6>'') html;
         html = replace_re flag_m (line_re (js ''* '')) 1 (js ''<li>$1</li>'') html;
         html = replace_re flag_m (line_re (js ''- '')) 1 (js ''<li>$1</li>'') html;
         html = replace_re plain (seqs [li_re, Lit [10], Ahead True (Lit (js ''<li>''))]) 1 (js ''$1'') html;
         html = replace_re plain (plus True li_re) 1 (js ''<ul>$&</ul>'') html;
         html = replace_re flag_m (seqs [Bol, plus True (CSet False [DigitCls]), Lit (js ''. ''), Group 1 some, Eol])
                  1 (js ''<li>$1</li>'') html;
         html = replace_re plain (seqs [li_re, Lit [10], Ahead True (Lit (js ''<li>''))]) 1 (js ''$1'') html;
         html = replace_re plain (plus True li_re) 1 (js ''<ol>$&</ol>'') html;
         html = replace_re plain (seqs [Lit (js ''**''), Group 1 some_lazy, Lit (js ''**'')]) 1
                  (js ''<strong>$1</strong>'') html;
         html = replace_re plain (seqs [Lit (js ''__''), Group 1 some_lazy, Lit (js ''__'')]) 1
                  (js ''<strong>$1</strong>'') html;
         html = replace_re plain (seqs [Lit (js ''*''), Group 1 some_lazy, Lit (js ''*'')]) 1
                  (js ''<em>$1</em>'') html;
         html = replace_re plain (seqs [Lit (js ''_''), Group 1 some_lazy, Lit (js ''_'')]) 1
                  (js ''<em>$1</em>'') html;
         html = replace_re plain
                  (seqs [Lit (js ''```''), Group 1 (Star True (CSet False [Range 97 122, Range 65 90])),
                         Group 2 (Star False (CSet False [SpaceCls, NonSpaceCls])), Lit (js ''```'')]) 2
                  (js ''<div class="code-block"><div class="code-lang">$1</div><pre>$2</pre></div>'') html;
         html = replace_re plain (seqs [Lit (js ''`''), Group 1 (plus True (CSet True [One 96])), Lit (js ''`'')]) 1
                  (js ''<code>$1</code>'') html;
         html = replace_re flag_m (seqs [Bol, Ahead False block_start_re, some, Eol]) 1 (js ''<p>$&</p>'') html;
         html = replace_re plain (Lit (js ''<p><p>'')) 0 (js ''<p>'') html;
         html = replace_re plain (Lit (js ''</p></p>'')) 0 (js ''</p>'') html;
         html = replace_re plain
                  (seqs [Group 1 some, Lit [10],
                         Ahead False (Alt (seqs [Lit (js ''<''), opt (Lit (js ''/'')), CSet False [Range 97 122]]) Eol)])
                  1 (js ''$1<br>'') html
     in html)\<close>

section \<open>\<^verbatim>\<open>components/FileUpload.tsx\<close>: the Placeholder Protocol\<close>

text \<open>\<^verbatim>\<open>description.replace(/'/g, "\\'")\<close>: a backslash before every single quote.\<close>

definition escape_quotes :: "jsstring \<Rightarrow> jsstring" where
  "escape_quotes s = replace_re plain (Lit [39]) 0 [92, 39] s"

text \<open>The five replacements that escape the code for display.\<close>

definition escapeHtml :: "jsstring \<Rightarrow> jsstring" where
  "escapeHtml code =
     replace_re plain (Lit [39]) 0 (js ''&#039;'')
       (replace_re plain (Lit [34]) 0 (js ''&quot;'')
         (replace_re plain (Lit (js ''>'')) 0 (js ''&gt;'')
           (replace_re plain (Lit (js ''<'')) 0 (js ''&lt;'')
             (replace_re plain (Lit (js ''&'')) 0 (js ''&amp;'') code))))"

text \<open>
  \<^verbatim>\<open>encodeURIComponent\<close>: the characters \<^verbatim>\<open>A-Z a-z 0-9 - _ . ! ~ * ' ( )\<close> stay, every other
  code point is written as the bytes of its UTF-8 encoding, each as \<^verbatim>\<open>%XX\<close>.  A surrogate
  without its partner raises \<^verbatim>\<open>URIError\<close>, which is \<open>None\<close> here.
\<close>

definition uri_unreserved :: "cu \<Rightarrow> bool" where
  "uri_unreserved c = ((65 \<le> c \<and> c \<le> 90) \<or> (97 \<le> c \<and> c \<le> 122) \<or> (48 \<le> c \<and> c \<le> 57)
     \<or> c = 45 \<or> c = 95 \<or> c = 46 \<or> c = 33 \<or> c = 126 \<or> c = 42 \<or> c = 39 \<or> c = 40 \<or> c = 41)"

definition hex_digit :: "nat \<Rightarrow> cu" where
  "hex_digit d = (if d < 10 then 48 + d else 55 + d)"

definition percent :: "nat list \<Rightarrow> jsstring" where
  "percent bytes = concat (map (\<lambda>b. [37, hex_digit (b div 16), hex_digit (b mod 16)]) bytes)"

definition utf8 :: "nat \<Rightarrow> nat list" where
  "utf8 cp =
     (if cp < 128 then [cp]
      else if cp < 2048 then [192 + cp div 64, 128 + cp mod 64]
      else if cp < 65536 then [224 + cp div 4096, 128 + (cp div 64) mod 64, 128 + cp mod 64]
      else [240 + (cp div 262144) mod 8, 128 + (cp div 4096) mod 64, 128 + (cp div 64) mod 64, 128 + cp mod 64])"

fun encodeURIComponent :: "jsstring \<Rightarrow> jsstring option" where
  "encodeURIComponent [] = Some []"
| "encodeURIComponent (c # s) =
     (if uri_unreserved c then map_option ((#) c) (encodeURIComponent s)
      else if 55296 \<le> c \<and> c \<le> 56319 then
        (case s of
           [] \<Rightarrow> None
         | d # s' \<Rightarrow>
             if 56320 \<le> d \<and> d \<le> 57343
             then map_option ((@) (percent (utf8 (65536 + (c - 55296) * 1024 + (d - 56320)))))
                    (encodeURIComponent s')
             else None)
      else if 56320 \<le> c \<and> c \<le> 57343 then None
      else map_option ((@) (percent (utf8 c))) (encodeURIComponent s))"

text \<open>\<^verbatim>\<open>`vis-container-${visualization.id}`\<close>\<close>

definition visContainerId :: "jsstring \<Rightarrow> jsstring" where
  "visContainerId i = js ''vis-container-'' @ i"

text \<open>\<^verbatim>\<open>visualization.error || 'Failed to load visualization'\<close>: the empty string is falsy too.\<close>

definition error_text :: "jsstring option \<Rightarrow> jsstring" where
  "error_text e = (case e of None \<Rightarrow> js ''Failed to load visualization''
                    | Some t \<Rightarrow> if t = [] then js ''Failed to load visualization'' else t)"

text \<open>
  The four template literals of \<^verbatim>\<open>formatResponse\<close>, line by line; 10 is the line feed, 39
  the single quote, and 9888, 65039 the warning sign of the source.
\<close>

definition file_data_warning :: jsstring where
  \<open>file_data_warning =
     js ''<div class="file-data-warning">Document data not available. Please re-upload the document to regenerate visualizations.</div>''\<close>

definition missing_html :: "bool \<Rightarrow> bool \<Rightarrow> jsstring \<Rightarrow> jsstring \<Rightarrow> jsstring" where
  \<open>missing_html regenerating fileDataAvailable id' description =
     js ''<div class="visualization-placeholder error">'' @ [10] @
     js ''          <h4>Visualization: '' @ description @ js ''</h4>'' @ [10] @
     js ''          <div class="placeholder-status error">'' @ [10] @
     js ''            <div class="error-icon">'' @ [9888, 65039] @ js ''</div>'' @ [10] @
     js ''            <div>Visual failed to generate</div>'' @ [10] @
     js ''            <button '' @ [10] @
     js ''              class="retry-button"'' @ [10] @
     js ''              onclick="window.dispatchEvent(new CustomEvent('' @ [39] @ js ''regenerate-visualization'' @ [39] @ js '', { detail: { id: '' @ [39] @ id' @ [39] @ js '', description: '' @ [39] @ escape_quotes description @ [39] @ js '' } }))"'' @ [10] @
     js ''              '' @ (if regenerating then js ''disabled'' else []) @ [10] @
     js ''              '' @ (if \<not> fileDataAvailable then js ''disabled'' else []) @ [10] @
     js ''            >'' @ [10] @
     js ''              '' @ (if regenerating then js ''Regenerating...'' else js ''Generate'') @ [10] @
     js ''            </button>'' @ [10] @
     js ''            '' @ (if \<not> fileDataAvailable then file_data_warning else []) @ [10] @
     js ''          </div>'' @ [10] @
     js ''        </div>''\<close>

definition loading_html :: "Visualization \<Rightarrow> jsstring" where
  \<open>loading_html visualization =
     js ''<div class="visualization-placeholder loading">'' @ [10] @
     js ''          <h4>Visualization: '' @ v_description visualization @ js ''</h4>'' @ [10] @
     js ''          <div class="placeholder-status">'' @ [10] @
     js ''            <div className="spinner"></div>'' @ [10] @
     js ''            <span>Loading visualization...</span>'' @ [10] @
     js ''          </div>'' @ [10] @
     js ''        </div>''\<close>

definition error_html :: "bool \<Rightarrow> bool \<Rightarrow> jsstring \<Rightarrow> jsstring \<Rightarrow> Visualization \<Rightarrow> jsstring" where
  \<open>error_html regenerating fileDataAvailable id' description visualization =
     js ''<div class="visualization-placeholder error">'' @ [10] @
     js ''          <h4>Visualization: '' @ v_description visualization @ js ''</h4>'' @ [10] @
     js ''          <div class="placeholder-status error">'' @ [10] @
     js ''            <div className="error-icon">'' @ [9888, 65039] @ js ''</div>'' @ [10] @
     js ''            <div>Error: '' @ error_text (v_error visualization) @ js ''</div>'' @ [10] @
     js ''            <button '' @ [10] @
     js ''              class="retry-button"'' @ [10] @
     js ''              onclick="window.dispatchEvent(new CustomEvent('' @ [39] @ js ''regenerate-visualization'' @ [39] @ js '', { detail: { id: '' @ [39] @ id' @ [39] @ js '', description: '' @ [39] @ escape_quotes description @ [39] @ js '' } }))"'' @ [10] @
     js ''              '' @ (if regenerating then js ''disabled'' else []) @ [10] @
     js ''              '' @ (if \<not> fileDataAvailable then js ''disabled'' else []) @ [10] @
     js ''            >'' @ [10] @
     js ''              '' @ (if regenerating then js ''Regenerating...'' else js ''Try Again'') @ [10] @
     js ''            </button>'' @ [10] @
     js ''            '' @ (if \<not> fileDataAvailable then file_data_warning else []) @ [10] @
     js ''          </div>'' @ [10] @
     js ''        </div>''\<close>

definition ready_html :: "bool \<Rightarrow> bool \<Rightarrow> jsstring \<Rightarrow> jsstring \<Rightarrow> Visualization \<Rightarrow> jsstring \<Rightarrow> jsstring" where
  \<open>ready_html regenerating fileDataAvailable id' description visualization encoded =
     js ''<div class="visualization-placeholder ready">'' @ [10] @
     js ''          <div class="visualization-header">'' @ [10] @
     js ''            <h4>Visualization: '' @ v_description visualization @ js ''</h4>'' @ [10] @
     js ''            <button '' @ [10] @
     js ''              class="regenerate-button"'' @ [10] @
     js ''              onclick="window.dispatchEvent(new CustomEvent('' @ [39] @ js ''regenerate-visualization'' @ [39] @ js '', { detail: { id: '' @ [39] @ id' @ [39] @ js '', description: '' @ [39] @ escape_quotes description @ [39] @ js '' } }))"'' @ [10] @
     js ''              '' @ (if regenerating then js ''disabled'' else []) @ [10] @
     js ''              '' @ (if \<not> fileDataAvailable then js ''disabled'' else []) @ [10] @
     js ''            >'' @ [10] @
     js ''              '' @ (if regenerating then js ''Regenerating...'' else js ''Regenerate'') @ [10] @
     js ''            </button>'' @ [10] @
     js ''          </div>'' @ [10] @
     js ''          '' @ (if \<not> fileDataAvailable then file_data_warning else []) @ [10] @
     js ''          <div id="'' @ visContainerId (v_id visualization) @ js ''" class="embedded-visualization-container" data-code="'' @ encoded @ js ''"></div>'' @ [10] @
     js ''          <details>'' @ [10] @
     js ''            <summary>Show Code</summary>'' @ [10] @
     js ''            <pre style="background-color: #f0f0f0; padding: 10px; border-radius: 4px; overflow-x: auto; max-height: 300px;">'' @ escapeHtml (v_code visualization) @ js ''</pre>'' @ [10] @
     js ''          </details>'' @ [10] @
     js ''        </div>''\<close>

text \<open>\<^verbatim>\<open>/{{VISUALIZATION:([a-zA-Z0-9_]+):([^}]+)}}/g\<close> and \<^verbatim>\<open>/{{[^}]+}}/g\<close>\<close>

definition placeholderRegex :: re where
  "placeholderRegex =
     seqs [Lit (js ''{{VISUALIZATION:''),
           Group 1 (plus True (CSet False [Range 97 122, Range 65 90, Range 48 57, One 95])),
           Lit (js '':''), Group 2 (plus True (CSet True [One 125])), Lit (js ''}}'')]"

definition leftover_re :: re where
  "leftover_re = seqs [Lit (js ''{{''), plus True (CSet True [One 125]), Lit (js ''}}'')]"

text \<open>
  The loop \<^verbatim>\<open>while ((match = placeholderRegex.exec(text)) !== null)\<close>: the matches from
  left to right, each search starting where the last match ended.  The expression matches
  at least \<^verbatim>\<open>{{VISUALIZATION:\<close>, so the empty match, on which the loop of the source would
  not move on, does not occur; the model stops there.
\<close>

fun exec_all :: "flags \<Rightarrow> re \<Rightarrow> nat \<Rightarrow> jsstring \<Rightarrow> jsstring \<Rightarrow> rmatch list" where
  "exec_all f r k rp [] = []"
| "exec_all f r (Suc k) rp (x # s) = exec_all f r k (x # rp) s"
| "exec_all f r 0 rp (x # s) = (case first_match f r (rp, x # s) of
      None \<Rightarrow> exec_all f r 0 (x # rp) s
    | Some m \<Rightarrow> m # (if m_text m = [] then []
                     else exec_all f r (length (m_text m) - 1) (x # rp) s))"

text \<open>\<^verbatim>\<open>placeholdersInText\<close>: the pairs \<^verbatim>\<open>{ id: match[1], description: match[2] }\<close>.\<close>

definition placeholdersInText :: "jsstring \<Rightarrow> (jsstring \<times> jsstring) list" where
  "placeholdersInText text =
     map (\<lambda>m. (to_str (m_caps m 1), to_str (m_caps m 2))) (exec_all plain placeholderRegex 0 [] text)"

text \<open>\<^verbatim>\<open>`{{VISUALIZATION:${id}:${description}}}`\<close>\<close>

definition placeholderTag :: "jsstring \<Rightarrow> jsstring \<Rightarrow> jsstring" where
  "placeholderTag id' description = js ''{{VISUALIZATION:'' @ id' @ js '':'' @ description @ js ''}}''"

text \<open>
  What \<^verbatim>\<open>formatResponse\<close> reads from the component: whether \<^verbatim>\<open>file\<close> and \<^verbatim>\<open>cachedFile\<close>
  are there, the tabs and the active tab, and for which ids
  \<^verbatim>\<open>regeneratingVisualizations[id]\<close> is truthy.
\<close>

record component =
  has_file :: bool
  has_cachedFile :: bool
  learningTabs :: "LearningTab list"
  activeTab :: "jsstring option"
  regeneratingVisualizations :: "jsstring \<Rightarrow> bool"

text \<open>
  \<^verbatim>\<open>!!(file || cachedFile || (tab && tab.fileData))\<close> for
  \<^verbatim>\<open>tab = learningTabs.find(t => t.id === activeTab)\<close>; an empty string is falsy.
\<close>

definition fileDataAvailable :: "component \<Rightarrow> bool" where
  "fileDataAvailable cmp =
     (has_file cmp \<or> has_cachedFile cmp \<or>
      (case find (\<lambda>t. Some (t_id t) = activeTab cmp) (learningTabs cmp) of
         None \<Rightarrow> False
       | Some tab \<Rightarrow> (case t_fileData tab of None \<Rightarrow> False | Some d \<Rightarrow> d \<noteq> [])))"

text \<open>
  The body of the \<^verbatim>\<open>forEach\<close>: the fragment for one placeholder.  \<open>None\<close> is the
  \<^verbatim>\<open>URIError\<close> of \<^verbatim>\<open>encodeURIComponent\<close>.  A status that is none of the three leaves
  \<^verbatim>\<open>replacementHtml\<close> empty.
\<close>

definition replacementHtml :: "component \<Rightarrow> Visualization list \<Rightarrow> jsstring \<Rightarrow> jsstring \<Rightarrow> jsstring option" where
  "replacementHtml cmp visualizations id' description =
     (case find (\<lambda>v. v_id v = id') visualizations of
        None \<Rightarrow> Some (missing_html (regeneratingVisualizations cmp id') (fileDataAvailable cmp) id' description)
      | Some visualization \<Rightarrow>
          if v_status visualization = Some (js ''loading'') then Some (loading_html visualization)
          else if v_status visualization = Some (js ''error'')
          then Some (error_html (regeneratingVisualizations cmp id') (fileDataAvailable cmp) id' description
                       visualization)
          else if v_status visualization = Some (js ''ready'')
          then map_option (ready_html (regeneratingVisualizations cmp id') (fileDataAvailable cmp) id'
                             description visualization)
                 (encodeURIComponent (v_code visualization))
          else Some [])"

fun expand :: "component \<Rightarrow> Visualization list \<Rightarrow> (jsstring \<times> jsstring) list \<Rightarrow> jsstring \<Rightarrow> jsstring option" where
  "expand cmp visualizations [] formattedText = Some formattedText"
| "expand cmp visualizations ((id', description) # ps) formattedText =
     (case replacementHtml cmp visualizations id' description of
        None \<Rightarrow> None
      | Some html \<Rightarrow>
          expand cmp visualizations ps (replace_str formattedText (placeholderTag id' description) html))"

definition formatResponse :: "component \<Rightarrow> jsstring \<Rightarrow> Visualization list \<Rightarrow> jsstring option" where
  "formatResponse cmp text visualizations =
     map_option (replace_re plain leftover_re 0 [])
       (expand cmp visualizations (placeholdersInText text) (markdownToHtml text))"

section \<open>\<^verbatim>\<open>components/FileUpload.tsx\<close>: sessions and their persistence\<close>

subsection \<open>\<^verbatim>\<open>handleBeginLearning\<close>\<close>

text \<open>
  What \<^verbatim>\<open>handleBeginLearning\<close> reads of the uploaded \<^verbatim>\<open>File\<close>, and the tab it builds
  from the result of \<^verbatim>\<open>analyzeDocument\<close>: every extracted visualization gets the status
  \<^verbatim>\<open>'ready'\<close>, and the base64 data is stored when \<^verbatim>\<open>file.size < 5 * 1024 * 1024\<close>.
  \<open>newTabId\<close> is \<^verbatim>\<open>Date.now().toString()\<close>.
\<close>

record File =
  f_name :: jsstring
  f_size :: nat

definition newTab :: "File \<Rightarrow> jsstring \<Rightarrow> jsstring \<Rightarrow> Visualization list \<Rightarrow> jsstring \<Rightarrow> LearningTab" where
  "newTab fl base64Data paperContent extractedVisualizations newTabId =
     \<lparr> t_id = newTabId, t_title = f_name fl, t_content = paperContent,
       t_visualizations = map (\<lambda>vis. vis\<lparr> v_status := Some (js ''ready'') \<rparr>) extractedVisualizations,
       t_fileData = (if f_size fl < 5 * 1024 * 1024 then Some base64Data else None) \<rparr>"

text \<open>\<^verbatim>\<open>setLearningTabs(prev => [...prev, newTab])\<close>\<close>

definition handleBeginLearning :: "File \<Rightarrow> jsstring \<Rightarrow> jsstring \<Rightarrow> Visualization list \<Rightarrow> jsstring
    \<Rightarrow> LearningTab list \<Rightarrow> LearningTab list" where
  "handleBeginLearning fl base64Data paperContent extractedVisualizations newTabId prev =
     prev @ [newTab fl base64Data paperContent extractedVisualizations newTabId]"

subsection \<open>\<^verbatim>\<open>handleRegenerateVisualization\<close>: the state update\<close>

text \<open>
  The object built after a successful regeneration:
  \<^verbatim>\<open>{ id: visId, description, code: newVisualizationCode, status: 'ready' }\<close>.
\<close>

definition updatedVisualization :: "jsstring \<Rightarrow> jsstring \<Rightarrow> jsstring \<Rightarrow> Visualization" where
  "updatedVisualization visId description newVisualizationCode =
     \<lparr> v_id = visId, v_description = description, v_code = newVisualizationCode,
       v_status = Some (js ''ready''), v_error = None \<rparr>"

text \<open>
  \<^verbatim>\<open>tab.visualizations.map(v => v.id === visId ? updatedVisualization : v)\<close> inside
  \<^verbatim>\<open>{ ...tab, visualizations: ... }\<close>, for the tab with \<^verbatim>\<open>tab.id === activeTab\<close>; every
  other tab is returned as it is.
\<close>

definition regenerate_tab :: "jsstring \<Rightarrow> jsstring \<Rightarrow> Visualization \<Rightarrow> LearningTab \<Rightarrow> LearningTab" where
  "regenerate_tab active visId upd tab =
     (if t_id tab = active
      then tab\<lparr> t_visualizations := map (\<lambda>v. if v_id v = visId then upd else v) (t_visualizations tab) \<rparr>
      else tab)"

definition regenerate_tabs :: "jsstring \<Rightarrow> jsstring \<Rightarrow> Visualization \<Rightarrow> LearningTab list \<Rightarrow> LearningTab list" where
  "regenerate_tabs active visId upd prevTabs = map (regenerate_tab active visId upd) prevTabs"

subsection \<open>JSON\<close>

text \<open>
  The entry of \<^verbatim>\<open>localStorage\<close> is a JSON text.  The text is modelled by the value it
  denotes, so that \<^verbatim>\<open>JSON.parse\<close> of a stored text is the stored value.  The application
  writes strings, arrays and objects only, and these are the values of the model; a text
  that is not JSON is not in it.  \<^verbatim>\<open>JSON.stringify\<close> leaves out a field whose value is
  \<^verbatim>\<open>undefined\<close>.
\<close>

datatype json = JStr jsstring | JArr "json list" | JObj "(jsstring \<times> json) list"

definition opt_field :: "string \<Rightarrow> jsstring option \<Rightarrow> (jsstring \<times> json) list" where
  "opt_field k v = (case v of None \<Rightarrow> [] | Some s \<Rightarrow> [(js k, JStr s)])"

definition json_of_vis :: "Visualization \<Rightarrow> json" where
  "json_of_vis v = JObj ([(js ''id'', JStr (v_id v)), (js ''description'', JStr (v_description v)),
                          (js ''code'', JStr (v_code v))]
                         @ opt_field ''status'' (v_status v) @ opt_field ''error'' (v_error v))"

definition json_of_tab :: "LearningTab \<Rightarrow> json" where
  "json_of_tab t = JObj ([(js ''id'', JStr (t_id t)), (js ''title'', JStr (t_title t)),
                          (js ''content'', JStr (t_content t)),
                          (js ''visualizations'', JArr (map json_of_vis (t_visualizations t)))]
                         @ opt_field ''fileData'' (t_fileData t))"

definition JSON_stringify :: "LearningTab list \<Rightarrow> json" where
  "JSON_stringify tabs = JArr (map json_of_tab tabs)"

text \<open>
  \<^verbatim>\<open>object[key]\<close> for an object given by its entries: where a key is repeated the last
  entry counts, as for \<^verbatim>\<open>JSON.parse\<close>.
\<close>

definition field :: "(jsstring \<times> json) list \<Rightarrow> string \<Rightarrow> json option" where
  "field kv k = map_of (rev kv) (js k)"

text \<open>
  Reading a parsed value as the objects the interfaces declare: an object that has the
  declared fields and no others, the required ones holding strings (an array for
  \<^verbatim>\<open>visualizations\<close>), the optional ones and the status holding a string or missing.  For
  every other value the result is \<open>None\<close>.
\<close>

definition str_field :: "(jsstring \<times> json) list \<Rightarrow> string \<Rightarrow> jsstring option" where
  "str_field kv k = (case field kv k of Some (JStr s) \<Rightarrow> Some s | _ \<Rightarrow> None)"

definition opt_str_field :: "(jsstring \<times> json) list \<Rightarrow> string \<Rightarrow> jsstring option option" where
  "opt_str_field kv k = (case field kv k of None \<Rightarrow> Some None | Some (JStr s) \<Rightarrow> Some (Some s) | _ \<Rightarrow> None)"

definition only_fields :: "(jsstring \<times> json) list \<Rightarrow> string list \<Rightarrow> bool" where
  "only_fields kv ks = list_all (\<lambda>e. fst e \<in> set (map js ks)) kv"

fun those_opt :: "'a option list \<Rightarrow> 'a list option" where
  "those_opt [] = Some []"
| "those_opt (x # xs) = (case x of None \<Rightarrow> None
                         | Some y \<Rightarrow> (case those_opt xs of None \<Rightarrow> None | Some ys \<Rightarrow> Some (y # ys)))"

definition vis_of_json :: "json \<Rightarrow> Visualization option" where
  "vis_of_json j =
     (case j of
        JObj kv \<Rightarrow>
          (if only_fields kv [''id'', ''description'', ''code'', ''status'', ''error'']
           then (case (str_field kv ''id'', str_field kv ''description'', str_field kv ''code'',
                       opt_str_field kv ''status'', opt_str_field kv ''error'') of
                   (Some i, Some d, Some c, Some s, Some e) \<Rightarrow>
                     Some \<lparr> v_id = i, v_description = d, v_code = c, v_status = s, v_error = e \<rparr>
                 | _ \<Rightarrow> None)
           else None)
      | _ \<Rightarrow> None)"

definition tab_of_json :: "json \<Rightarrow> LearningTab option" where
  "tab_of_json j =
     (case j of
        JObj kv \<Rightarrow>
          (if only_fields kv [''id'', ''title'', ''content'', ''visualizations'', ''fileData'']
           then (case (str_field kv ''id'', str_field kv ''title'', str_field kv ''content'',
                       field kv ''visualizations'', opt_str_field kv ''fileData'') of
                   (Some i, Some t, Some c, Some (JArr vs), Some d) \<Rightarrow>
                     (case those_opt (map vis_of_json vs) of
                        None \<Rightarrow> None
                      | Some visualizations \<Rightarrow>
                          Some \<lparr> t_id = i, t_title = t, t_content = c, t_visualizations = visualizations,
                                 t_fileData = d \<rparr>)
                 | _ \<Rightarrow> None)
           else None)
      | _ \<Rightarrow> None)"

definition tabs_of_json :: "json \<Rightarrow> LearningTab list option" where
  "tabs_of_json j = (case j of JArr ts \<Rightarrow> those_opt (map tab_of_json ts) | _ \<Rightarrow> None)"

subsection \<open>\<^verbatim>\<open>localStorage\<close>, \<^verbatim>\<open>alert\<close> and the console\<close>

text \<open>
  The browser as the component sees it.  Whether a write succeeds is the browser's
  decision: \<open>outcome n\<close> is what the \<open>n\<close>-th call of \<^verbatim>\<open>setItem\<close> does (counting from 0).
  \<open>writes\<close> records every call of \<^verbatim>\<open>setItem\<close> with its arguments, \<open>blob_size\<close> is the size
  in bytes of a serialised value.
\<close>

datatype set_outcome = Stored | QuotaExceededError | OtherError

datatype log_entry =
    Warn_size
  | Error_saving
  | Warn_saved_without_file_data
  | Error_retry_failed
  | Error_parsing

record browser =
  items :: "jsstring \<rightharpoonup> json"
  outcome :: "nat \<Rightarrow> set_outcome"
  writes :: "(jsstring \<times> json) list"
  alerts :: "jsstring list"
  console :: "log_entry list"
  blob_size :: "json \<Rightarrow> nat"

definition setItem :: "jsstring \<Rightarrow> json \<Rightarrow> browser \<Rightarrow> set_outcome \<times> browser" where
  "setItem key val b =
     (let res = outcome b (length (writes b));
          b' = b\<lparr> writes := writes b @ [(key, val)] \<rparr>
      in (res, if res = Stored then b'\<lparr> items := (items b)(key \<mapsto> val) \<rparr> else b'))"

definition removeItem :: "jsstring \<Rightarrow> browser \<Rightarrow> browser" where
  "removeItem key b = b\<lparr> items := (items b)(key := None) \<rparr>"

definition log :: "log_entry \<Rightarrow> browser \<Rightarrow> browser" where
  "log e b = b\<lparr> console := console b @ [e] \<rparr>"

definition alert :: "jsstring \<Rightarrow> browser \<Rightarrow> browser" where
  "alert msg b = b\<lparr> alerts := alerts b @ [msg] \<rparr>"

definition quota_notice :: jsstring where
  "quota_notice = js ''Your browser storage limit was reached. Visualizations can no longer be regenerated without re-uploading the document.''"

subsection \<open>\<^verbatim>\<open>saveToLocalStorage\<close> and the two effects\<close>

text \<open>
  \<^verbatim>\<open>data.map(tab => ({ ...tab, fileData: undefined }))\<close>
\<close>

definition strippedData :: "LearningTab list \<Rightarrow> LearningTab list" where
  "strippedData data = map (\<lambda>tab. tab\<lparr> t_fileData := None \<rparr>) data"

text \<open>
  \<^verbatim>\<open>saveToLocalStorage(key, data)\<close> for a list of tabs.  The outer \<^verbatim>\<open>try\<close> serialises,
  warns above 4 MB and writes.  Its \<^verbatim>\<open>catch\<close> logs; for a \<^verbatim>\<open>QuotaExceededError\<close>, and the
  key \<^verbatim>\<open>learningTabs\<close>, it writes the stripped data, and warns, alerts and returns
  \<^verbatim>\<open>true\<close> when that write succeeds; when it fails the inner \<^verbatim>\<open>catch\<close> logs.  Every
  other path returns \<^verbatim>\<open>false\<close>.
\<close>

definition saveToLocalStorage :: "jsstring \<Rightarrow> LearningTab list \<Rightarrow> browser \<Rightarrow> bool \<times> browser" where
  "saveToLocalStorage key data b =
     (let serialized = JSON_stringify data;
          b1 = (if blob_size b serialized > 4 * (1024 * 1024) then log Warn_size b else b);
          (res, b2) = setItem key serialized b1
      in if res = Stored then (True, b2)
         else
           let b3 = log Error_saving b2
           in if res = QuotaExceededError
              then (if key = js ''learningTabs''
                    then (let (res', b4) = setItem key (JSON_stringify (strippedData data)) b3
                          in if res' = Stored
                             then (True, alert quota_notice (log Warn_saved_without_file_data b4))
                             else (False, log Error_retry_failed b4))
                    else (False, b3))
              else (False, b3))"

text \<open>The effect that runs whenever \<^verbatim>\<open>learningTabs\<close> changes.\<close>

definition save_effect :: "LearningTab list \<Rightarrow> browser \<Rightarrow> browser" where
  "save_effect tabs b =
     (if length tabs > 0 then snd (saveToLocalStorage (js ''learningTabs'') tabs b)
      else removeItem (js ''learningTabs'') b)"

text \<open>
  The state the loading effect sets, and the effect: it runs once, on the first render,
  when \<^verbatim>\<open>learningTabs\<close> is empty and no tab is active.
\<close>

datatype view = Upload | Content | VisualizationView

record session_state =
  s_learningTabs :: "LearningTab list"
  s_activeTab :: "jsstring option"
  s_view :: view

definition initial_state :: session_state where
  "initial_state = \<lparr> s_learningTabs = [], s_activeTab = None, s_view = Upload \<rparr>"

text \<open>
  \<^verbatim>\<open>{ ...vis, status: vis.status || 'ready' }\<close> and
  \<^verbatim>\<open>{ ...tab, visualizations: tab.visualizations.map(...) }\<close> on objects of the declared
  interfaces.
\<close>

definition restore_vis :: "Visualization \<Rightarrow> Visualization" where
  "restore_vis vis = vis\<lparr> v_status := (case v_status vis of
       None \<Rightarrow> Some (js ''ready'')
     | Some s \<Rightarrow> if s = [] then Some (js ''ready'') else Some s) \<rparr>"

definition restore_tab :: "LearningTab \<Rightarrow> LearningTab" where
  "restore_tab tab = tab\<lparr> t_visualizations := map restore_vis (t_visualizations tab) \<rparr>"

text \<open>
  Where \<^verbatim>\<open>parsedTabs.map(...)\<close> throws a \<^verbatim>\<open>TypeError\<close>: the parsed value is not an array,
  or one of its elements has no array \<^verbatim>\<open>visualizations\<close> to call \<^verbatim>\<open>map\<close> on.  (Reading
  \<^verbatim>\<open>status\<close> of a string, an array or an object does not throw.)
\<close>

definition has_visualizations :: "json \<Rightarrow> bool" where
  "has_visualizations tab =
     (case tab of
        JObj kv \<Rightarrow> (case field kv ''visualizations'' of Some (JArr vs) \<Rightarrow> True | _ \<Rightarrow> False)
      | _ \<Rightarrow> False)"

definition map_throws :: "json \<Rightarrow> bool" where
  "map_throws parsedTabs =
     (case parsedTabs of JArr ts \<Rightarrow> \<not> list_all has_visualizations ts | _ \<Rightarrow> True)"

text \<open>
  The loading effect.  Without an entry nothing happens.  When the \<^verbatim>\<open>try\<close> block throws,
  the \<^verbatim>\<open>catch\<close> logs and removes the entry, and the state stays.  Otherwise the restored
  objects become the state, the last one's id the active tab, and the view changes, if
  there is one.  The source restores every object it can map over, also one that is not of
  the declared interfaces (a tab without a title, say); the state then holds objects that
  \<open>session_state\<close> does not describe, and the result here is \<open>None\<close>: the model says what
  the effect does for the other entries only.
\<close>

definition load_effect :: "browser \<Rightarrow> session_state \<Rightarrow> (browser \<times> session_state) option" where
  "load_effect b st =
     (case items b (js ''learningTabs'') of
        None \<Rightarrow> Some (b, st)
      | Some parsedTabs \<Rightarrow>
          if map_throws parsedTabs
          then Some (removeItem (js ''learningTabs'') (log Error_parsing b), st)
          else
            (case tabs_of_json parsedTabs of
               None \<Rightarrow> None
             | Some declaredTabs \<Rightarrow>
                 (let restoredTabs = map restore_tab declaredTabs;
                      st1 = st\<lparr> s_learningTabs := restoredTabs \<rparr>
                  in Some (b, if length restoredTabs > 0
                              then st1\<lparr> s_activeTab := Some (t_id (last restoredTabs)), s_view := Content \<rparr>
                              else st1))))"

section \<open>The matcher: where a match ends, soundness and completeness\<close>

text \<open>
  For expressions without anchors and look-ahead the matcher is compared with the language
  of the expression: it finds only words of the language, and it finds every one.
\<close>

fun simple :: "re \<Rightarrow> bool" where
  "simple (Seq a b) = (simple a \<and> simple b)"
| "simple (Alt a b) = (simple a \<and> simple b)"
| "simple (Group k r) = simple r"
| "simple (Star g r) = simple r"
| "simple Bol = False"
| "simple Eol = False"
| "simple (Ahead p r) = False"
| "simple _ = True"

inductive_set star :: "jsstring set \<Rightarrow> jsstring set" for L :: "jsstring set" where
  star_nil: "[] \<in> star L"
| star_step: "u \<in> L \<Longrightarrow> u \<noteq> [] \<Longrightarrow> v \<in> star L \<Longrightarrow> u @ v \<in> star L"

fun lang :: "flags \<Rightarrow> re \<Rightarrow> jsstring set" where
  "lang f (Lit w) = {u. list_all2 (ch_eq f) w u}"
| "lang f (CSet neg its) = {[x] | x. in_items f its x \<noteq> neg}"
| "lang f Dot = {[x] | x. \<not> isLineTerminator x}"
| "lang f (Seq a b) = {u @ v | u v. u \<in> lang f a \<and> v \<in> lang f b}"
| "lang f (Alt a b) = lang f a \<union> lang f b"
| "lang f (Group k r) = lang f r"
| "lang f (Star g r) = star (lang f r)"
| "lang f Bol = {}"
| "lang f Eol = {}"
| "lang f (Ahead p r) = {}"

text \<open>A character that every match of the expression contains.\<close>

fun needs :: "re \<Rightarrow> cu \<Rightarrow> bool" where
  "needs (Lit w) c = (c \<in> set w)"
| "needs (Seq a b) c = (needs a c \<or> needs b c)"
| "needs (Alt a b) c = (needs a c \<and> needs b c)"
| "needs (Group k r) c = needs r c"
| "needs _ c = False"

text \<open>A replacement took place: the output holds the result of a replacement function
  that differs from the text it replaces.\<close>

definition renamed :: "flags \<Rightarrow> re \<Rightarrow> (rmatch \<Rightarrow> jsstring \<times> bool) \<Rightarrow> jsstring \<Rightarrow> bool" where
  "renamed f r cb out = (\<exists>A B m st. out = A @ fst (cb m) @ B \<and> first_match f r st = Some m
                            \<and> fst (cb m) \<noteq> m_text m)"

text \<open>Every match of the expression sets capture \<open>k\<close> to a word of \<open>L\<close>.\<close>

definition cap_in :: "flags \<Rightarrow> re \<Rightarrow> nat \<Rightarrow> jsstring set \<Rightarrow> bool" where
  "cap_in f r k L = (\<forall>c st. \<forall>x \<in> set (ms f r c st). \<exists>w. fst x k = Some w \<and> w \<in> L)"

section \<open>Vocabulary of the claims\<close>

text \<open>
  The declarations of the entry name that the check for an existing \<^verbatim>\<open>App\<close> knows: a
  function declaration, an arrow-function assignment, or a class extending
  \<^verbatim>\<open>React.Component\<close>.  The keywords and the name are compared by \<open>eqv\<close>: exactly, or up
  to the case of ASCII letters.  Between them stands white space, and the parameter list of
  the arrow function is empty or a pair of parentheses with no closing parenthesis in
  between; an arrow function with a bare parameter (\<^verbatim>\<open>x =>\<close>) is not among them.
\<close>

definition ws_run :: "jsstring \<Rightarrow> bool" where
  "ws_run a = (\<forall>c \<in> set a. isWhiteSpace c)"

definition is_params :: "jsstring \<Rightarrow> bool" where
  "is_params p = (p = [] \<or> (\<exists>xs. p = js ''('' @ xs @ js '')'' \<and> 41 \<notin> set xs))"

definition exactly :: "jsstring \<Rightarrow> jsstring \<Rightarrow> bool" where
  "exactly w u = (u = w)"

definition any_case :: "jsstring \<Rightarrow> jsstring \<Rightarrow> bool" where
  "any_case w u = (map ascii_upper u = map ascii_upper w)"

inductive app_declaration :: "(jsstring \<Rightarrow> jsstring \<Rightarrow> bool) \<Rightarrow> jsstring \<Rightarrow> bool"
  for eqv :: "jsstring \<Rightarrow> jsstring \<Rightarrow> bool" where
  function_declaration:
    "eqv (js ''function'') k \<Longrightarrow> ws_run a \<Longrightarrow> a \<noteq> [] \<Longrightarrow> eqv (js ''App'') n \<Longrightarrow> ws_run b \<Longrightarrow>
     app_declaration eqv (k @ a @ n @ b @ js ''('')"
| arrow_assignment:
    "eqv (js ''const'') k \<Longrightarrow> ws_run a \<Longrightarrow> a \<noteq> [] \<Longrightarrow> eqv (js ''App'') n \<Longrightarrow> ws_run b \<Longrightarrow>
     ws_run c \<Longrightarrow> is_params p \<Longrightarrow> ws_run d \<Longrightarrow>
     app_declaration eqv (k @ a @ n @ b @ js ''='' @ c @ p @ d @ js ''=>'')"
| class_declaration:
    "eqv (js ''class'') k \<Longrightarrow> ws_run a \<Longrightarrow> a \<noteq> [] \<Longrightarrow> eqv (js ''App'') n \<Longrightarrow> ws_run b \<Longrightarrow> b \<noteq> [] \<Longrightarrow>
     eqv (js ''extends'') e \<Longrightarrow> ws_run c \<Longrightarrow> c \<noteq> [] \<Longrightarrow> eqv (js ''React.Component'') q \<Longrightarrow>
     app_declaration eqv (k @ a @ n @ b @ e @ c @ q)"




text \<open>
  The statuses the type \<^verbatim>\<open>'loading' | 'ready' | 'error'\<close> admits, for a field that may be
  missing; and the default the specification states for a missing status.
\<close>

definition status_typed :: "Visualization \<Rightarrow> bool" where
  "status_typed v = (v_status v \<in> {None, Some (js ''loading''), Some (js ''ready''), Some (js ''error'')})"

definition default_status :: "Visualization \<Rightarrow> Visualization" where
  "default_status v = (if v_status v = None then v\<lparr> v_status := Some (js ''ready'') \<rparr> else v)"


text \<open>
  A browser in which every other call of \<^verbatim>\<open>setItem\<close> fails for lack of space, the first
  one included; a list of one session that holds its document data, and the list after a
  second upload.
\<close>

definition every_other_write_fails :: browser where
  "every_other_write_fails =
     \<lparr> items = Map.empty, outcome = (\<lambda>n. if even n then QuotaExceededError else Stored),
       writes = [], alerts = [], console = [], blob_size = (\<lambda>j. 0) \<rparr>"

definition one_session :: "LearningTab list" where
  "one_session = handleBeginLearning \<lparr> f_name = js ''a.pdf'', f_size = 1000 \<rparr> (js ''JVBERi0='')
     (js ''prose'') [] (js ''1700000000000'') []"

definition two_sessions :: "LearningTab list" where
  "two_sessions = handleBeginLearning \<lparr> f_name = js ''b.pdf'', f_size = 2000 \<rparr> (js ''JVBERi1='')
     (js ''more prose'') [] (js ''1700000000001'') one_session"
section \<open>The mount point of a ready artifact\<close>






text \<open>
  A component that holds the uploaded file and regenerates nothing, and a ready artifact.
\<close>

definition with_file :: component where
  "with_file = \<lparr> has_file = True, has_cachedFile = False, learningTabs = [], activeTab = None,
                 regeneratingVisualizations = (\<lambda>_. False) \<rparr>"

definition chart :: Visualization where
  "chart = \<lparr> v_id = js ''abc'', v_description = js ''Chart'', v_code = js ''x'',
             v_status = Some (js ''ready''), v_error = None \<rparr>"


section \<open>Lemmas about the matcher\<close>

lemma lit_match_sound:
  "lit_match f w (rp, s) = Some (rp', s') \<Longrightarrow> \<exists>u. s = u @ s' \<and> rp' = rev u @ rp \<and> list_all2 (ch_eq f) w u"
proof (induction w arbitrary: rp s)
  case Nil
  then show ?case by simp
next
  case (Cons a w)
  then obtain x t where s: "s = x # t" by (cases s) auto
  with Cons.prems have e: "ch_eq f a x" and m: "lit_match f w (x # rp, t) = Some (rp', s')"
    by (auto split: if_splits)
  from Cons.IH [OF m] obtain u where "t = u @ s'" "rp' = rev u @ x # rp" "list_all2 (ch_eq f) w u"
    by blast
  with s e show ?case by (intro exI [of _ "x # u"]) simp
qed

lemma lit_match_complete:
  "list_all2 (ch_eq f) w u \<Longrightarrow> lit_match f w (rp, u @ rest) = Some (rev u @ rp, rest)"
proof (induction w arbitrary: rp u)
  case Nil
  then show ?case by simp
next
  case (Cons a w)
  then obtain x t where "u = x # t" "ch_eq f a x" "list_all2 (ch_eq f) w t"
    by (auto simp: list_all2_Cons1)
  with Cons.IH [of t "x # rp"] show ?case by simp
qed

lemma ms_suffix_st:
  "x \<in> set (ms f r c st) \<Longrightarrow> \<exists>w. snd st = w @ snd (snd x) \<and> fst (snd x) = rev w @ fst st"
proof (induction f r c st arbitrary: x rule: ms.induct)
  case (1 f w c st)
  then show ?case by (cases st) (auto split: option.splits dest!: lit_match_sound [OF sym])
next
  case (2 f neg its c rp s)
  then show ?case by (auto split: list.splits if_splits)
next
  case (3 f c rp s)
  then show ?case by (auto split: list.splits if_splits)
next
  case (4 f a b c st)
  from "4.prems" obtain y where m1: "y \<in> set (ms f a c st)"
    and m2: "x \<in> set (ms f b (fst y) (snd y))" by (auto simp: case_prod_beta)
  from "4.IH"(1) [OF m1] obtain u where u: "snd st = u @ snd (snd y)" "fst (snd y) = rev u @ fst st" by blast
  from "4.IH"(2) [OF m1 prod.collapse m2] obtain v where v: "snd (snd y) = v @ snd (snd x)" "fst (snd x) = rev v @ fst (snd y)" by blast
  from u v show ?case by (intro exI [of _ "u @ v"]) simp
next
  case (5 f a b c st)
  from "5.prems" have "x \<in> set (ms f a c st) \<or> x \<in> set (ms f b c st)" by simp
  then show ?case using "5.IH" by blast
next
  case (6 f k r c rp s)
  from "6.prems" obtain y where y: "y \<in> set (ms f r c (rp, s))" and x: "snd x = snd y"
    by (auto simp: case_prod_beta)
  from "6.IH" [OF y] x show ?case by simp
next
  case (7 f g r c rp s)
  from "7.prems" consider (zero) "x = (c, (rp, s))"
    | (more) y where "y \<in> set (ms f r (clear (groups r) c) (rp, s))"
        "length (snd (snd y)) < length s" "x \<in> set (ms f (Star g r) (fst y) (snd y))"
    by (auto simp: Let_def case_prod_beta split: if_splits)
  then show ?case
  proof cases
    case zero
    then show ?thesis by simp
  next
    case more
    from "7.IH"(1) [OF more(1)] obtain u where u: "s = u @ snd (snd y)" "fst (snd y) = rev u @ rp" by auto
    have "\<exists>w. snd (fst (snd y), snd (snd y)) = w @ snd (snd x) \<and> fst (snd x) = rev w @ fst (fst (snd y), snd (snd y))"
      by (rule "7.IH"(2) [OF more(1) prod.collapse prod.collapse more(2)]) (use more(3) in simp)
    then obtain v where v: "snd (snd y) = v @ snd (snd x)" "fst (snd x) = rev v @ fst (snd y)" by auto
    from u v show ?thesis by (intro exI [of _ "u @ v"]) simp
  qed
next
  case (8 f c rp s)
  then show ?case by (auto split: list.splits if_splits)
next
  case (9 f c rp s)
  then show ?case by (auto split: list.splits if_splits)
next
  case (10 f pos r c st)
  from "10.prems" have "snd x = st" by (auto split: list.splits if_splits)
  then show ?case by simp
qed

lemma ms_suffix:
  "(c', (rp', s')) \<in> set (ms f r c (rp, s)) \<Longrightarrow> \<exists>w. s = w @ s' \<and> rp' = rev w @ rp"
  using ms_suffix_st [of "(c', (rp', s'))" f r c "(rp, s)"] by simp

lemma ms_sound:
  "x \<in> set (ms f r c st) \<Longrightarrow> simple r \<Longrightarrow>
   \<exists>w. snd st = w @ snd (snd x) \<and> fst (snd x) = rev w @ fst st \<and> w \<in> lang f r"
proof (induction f r c st arbitrary: x rule: ms.induct)
  case (1 f w c st)
  then show ?case by (cases st) (auto split: option.splits dest!: lit_match_sound [OF sym])
next
  case (2 f neg its c rp s)
  then show ?case by (auto split: list.splits if_splits)
next
  case (3 f c rp s)
  then show ?case by (auto split: list.splits if_splits)
next
  case (4 f a b c st)
  from "4.prems" obtain y where m1: "y \<in> set (ms f a c st)"
    and m2: "x \<in> set (ms f b (fst y) (snd y))" by (auto simp: case_prod_beta)
  from "4.prems" have sa: "simple a" and sb: "simple b" by simp_all
  from "4.IH"(1) [OF m1 sa] obtain u where u: "snd st = u @ snd (snd y)" "fst (snd y) = rev u @ fst st"
    "u \<in> lang f a" by blast
  from "4.IH"(2) [OF m1 prod.collapse m2 sb] obtain v where v: "snd (snd y) = v @ snd (snd x)"
    "fst (snd x) = rev v @ fst (snd y)" "v \<in> lang f b" by blast
  from u v show ?case by (intro exI [of _ "u @ v"]) auto
next
  case (5 f a b c st)
  from "5.prems" have sa: "simple a" and sb: "simple b" by simp_all
  from "5.prems" have "x \<in> set (ms f a c st) \<or> x \<in> set (ms f b c st)" by simp
  then show ?case
  proof
    assume "x \<in> set (ms f a c st)"
    from "5.IH"(1) [OF this sa] show ?thesis by auto
  next
    assume "x \<in> set (ms f b c st)"
    from "5.IH"(2) [OF this sb] show ?thesis by auto
  qed
next
  case (6 f k r c rp s)
  from "6.prems" obtain y where y: "y \<in> set (ms f r c (rp, s))" and x: "snd x = snd y"
    by (auto simp: case_prod_beta)
  from "6.IH" [OF y] "6.prems"(2) x show ?case by simp
next
  case (7 f g r c rp s)
  from "7.prems" have sr: "simple r" by simp
  from "7.prems" consider (zero) "x = (c, (rp, s))"
    | (more) y where "y \<in> set (ms f r (clear (groups r) c) (rp, s))"
        "length (snd (snd y)) < length s" "x \<in> set (ms f (Star g r) (fst y) (snd y))"
    by (auto simp: Let_def case_prod_beta split: if_splits)
  then show ?case
  proof cases
    case zero
    then show ?thesis by (simp add: star_nil)
  next
    case more
    from "7.IH"(1) [OF more(1) sr] obtain u where u: "s = u @ snd (snd y)" "fst (snd y) = rev u @ rp"
      "u \<in> lang f r" by auto
    from u(1) more(2) have ne: "u \<noteq> []" by auto
    have "\<exists>w. snd (fst (snd y), snd (snd y)) = w @ snd (snd x) \<and>
              fst (snd x) = rev w @ fst (fst (snd y), snd (snd y)) \<and> w \<in> lang f (Star g r)"
      by (rule "7.IH"(2) [OF more(1) prod.collapse prod.collapse more(2)]) (use more(3) sr in simp_all)
    then obtain v where v: "snd (snd y) = v @ snd (snd x)" "fst (snd x) = rev v @ fst (snd y)"
      "v \<in> star (lang f r)" by auto
    from u v ne show ?thesis by (intro exI [of _ "u @ v"]) (auto intro: star_step)
  qed
next
  case (8 f c rp s)
  then show ?case by simp
next
  case (9 f c rp s)
  then show ?case by simp
next
  case (10 f pos r c st)
  then show ?case by simp
qed

lemma ms_Star_zero: "(c, (rp, s)) \<in> set (ms f (Star g r) c (rp, s))"
  by (subst ms.simps) (simp add: Let_def del: ms.simps)

lemma ms_Star_more:
  assumes "(c1, (rp1, s1)) \<in> set (ms f r (clear (groups r) c) (rp, s))"
    and "length s1 < length s"
    and "x \<in> set (ms f (Star g r) c1 (rp1, s1))"
  shows "x \<in> set (ms f (Star g r) c (rp, s))"
proof -
  have "x \<in> set (concat (map (\<lambda>(c', (rp', s')).
                    if length s' < length s then ms f (Star g r) c' (rp', s') else [])
                  (ms f r (clear (groups r) c) (rp, s))))"
    using assms by (auto simp del: ms.simps intro!: bexI [of _ "(c1, (rp1, s1))"])
  then show ?thesis
    by (subst ms.simps) (cases g; simp only: Let_def set_append set_simps UnI1 insertI2 if_True if_False)
qed

lemma ms_Seq_I:
  "(c1, st1) \<in> set (ms f a c st) \<Longrightarrow> x \<in> set (ms f b c1 st1) \<Longrightarrow> x \<in> set (ms f (Seq a b) c st)"
  by (subst ms.simps) (auto simp del: ms.simps simp: case_prod_beta intro!: bexI [of _ "(c1, st1)"])

lemma ms_Seq_E:
  assumes "x \<in> set (ms f (Seq a b) c st)"
  obtains y where "y \<in> set (ms f a c st)" "x \<in> set (ms f b (fst y) (snd y))"
  using assms by (auto simp: case_prod_beta)

lemma ms_complete:
  "w \<in> lang f r \<Longrightarrow> simple r \<Longrightarrow> \<exists>c'. (c', (rev w @ rp, rest)) \<in> set (ms f r c (rp, w @ rest))"
proof (induction r arbitrary: w c rp rest)
  case (Lit u)
  then show ?case by (simp add: lit_match_complete)
next
  case (CSet neg its)
  then obtain x where "w = [x]" "in_items f its x \<noteq> neg" by auto
  then show ?case by simp
next
  case Dot
  then obtain x where "w = [x]" "\<not> isLineTerminator x" by auto
  then show ?case by simp
next
  case (Seq a b)
  from Seq.prems obtain u v where w: "w = u @ v" and u: "u \<in> lang f a" and v: "v \<in> lang f b"
    and sa: "simple a" and sb: "simple b" by auto
  from Seq.IH(1) [OF u sa, of rp "v @ rest" c] obtain c1
    where m1: "(c1, (rev u @ rp, v @ rest)) \<in> set (ms f a c (rp, u @ v @ rest))" by blast
  from Seq.IH(2) [OF v sb, of "rev u @ rp" rest c1] obtain c2
    where m2: "(c2, (rev v @ rev u @ rp, rest)) \<in> set (ms f b c1 (rev u @ rp, v @ rest))" by blast
  from ms_Seq_I [OF m1 m2] w show ?case by (auto simp del: ms.simps)
next
  case (Alt a b)
  from Alt.prems have sa: "simple a" and sb: "simple b" by simp_all
  from Alt.prems have "w \<in> lang f a \<or> w \<in> lang f b" by simp
  then show ?case
  proof
    assume "w \<in> lang f a"
    from Alt.IH(1) [OF this sa, of rp rest c] show ?thesis by auto
  next
    assume "w \<in> lang f b"
    from Alt.IH(2) [OF this sb, of rp rest c] show ?thesis by auto
  qed
next
  case (Group k r)
  from Group.prems have "w \<in> lang f r" "simple r" by simp_all
  from Group.IH [OF this, of rp rest c] obtain c1
    where "(c1, (rev w @ rp, rest)) \<in> set (ms f r c (rp, w @ rest))" by blast
  then have "(c1(k := Some (take (length (w @ rest) - length rest) (w @ rest))), (rev w @ rp, rest))
      \<in> set (ms f (Group k r) c (rp, w @ rest))"
    by (auto simp: image_iff intro!: bexI [of _ "(c1, (rev w @ rp, rest))"])
  then show ?case by blast
next
  case (Star g r)
  from Star.prems have "w \<in> star (lang f r)" and sr: "simple r" by simp_all
  then show ?case
  proof (induction w arbitrary: c rp rule: star.induct)
    case star_nil
    show ?case using ms_Star_zero [of c rp rest f g r] by (auto simp del: ms.simps)
  next
    case (star_step u v)
    from Star.IH [OF star_step.hyps(1) sr, where rp = rp and rest = "v @ rest" and c = "clear (groups r) c"] obtain c1
      where m1: "(c1, (rev u @ rp, v @ rest)) \<in> set (ms f r (clear (groups r) c) (rp, u @ v @ rest))"
      by blast
    from star_step.IH [OF sr, where c = c1 and rp = "rev u @ rp"] obtain c2
      where m2: "(c2, (rev v @ rev u @ rp, rest)) \<in> set (ms f (Star g r) c1 (rev u @ rp, v @ rest))"
      by blast
    from star_step.hyps(2) have "length (v @ rest) < length (u @ v @ rest)" by (cases u) auto
    from ms_Star_more [OF m1 this m2] show ?case by (auto simp del: ms.simps)
  qed
qed simp_all

lemma ms_frame:
  "x \<in> set (ms f r c st) \<Longrightarrow> k \<notin> set (groups r) \<Longrightarrow> fst x k = c k"
proof (induction f r c st arbitrary: x rule: ms.induct)
  case (1 f w c st)
  then show ?case by (auto split: option.splits)
next
  case (2 f neg its c rp s)
  then show ?case by (auto split: list.splits if_splits)
next
  case (3 f c rp s)
  then show ?case by (auto split: list.splits if_splits)
next
  case (4 f a b c st)
  from "4.prems" obtain y where m1: "y \<in> set (ms f a c st)"
    and m2: "x \<in> set (ms f b (fst y) (snd y))" by (auto simp: case_prod_beta)
  from "4.prems" have ka: "k \<notin> set (groups a)" and kb: "k \<notin> set (groups b)" by simp_all
  from "4.IH"(1) [OF m1 ka] "4.IH"(2) [OF m1 prod.collapse m2 kb] show ?case by simp
next
  case (5 f a b c st)
  from "5.prems" have ka: "k \<notin> set (groups a)" and kb: "k \<notin> set (groups b)" by simp_all
  from "5.prems" have "x \<in> set (ms f a c st) \<or> x \<in> set (ms f b c st)" by simp
  then show ?case
  proof
    assume "x \<in> set (ms f a c st)"
    from "5.IH"(1) [OF this ka] show ?thesis .
  next
    assume "x \<in> set (ms f b c st)"
    from "5.IH"(2) [OF this kb] show ?thesis .
  qed
next
  case (6 f k' r c rp s)
  from "6.prems" obtain y where y: "y \<in> set (ms f r c (rp, s))"
    and x: "fst x = (fst y)(k' := Some (take (length s - length (snd (snd y))) s))"
    by (auto simp: case_prod_beta)
  from "6.IH" [OF y] "6.prems"(2) x show ?case by simp
next
  case (7 f g r c rp s)
  from "7.prems" have kr: "k \<notin> set (groups r)" by simp
  from "7.prems" consider (zero) "x = (c, (rp, s))"
    | (more) y where "y \<in> set (ms f r (clear (groups r) c) (rp, s))"
        "length (snd (snd y)) < length s" "x \<in> set (ms f (Star g r) (fst y) (snd y))"
    by (auto simp: Let_def case_prod_beta split: if_splits)
  then show ?case
  proof cases
    case zero
    then show ?thesis by simp
  next
    case more
    from "7.IH"(1) [OF more(1) kr] have a: "fst y k = c k" using kr by (simp add: clear_def)
    have "fst x k = fst y k"
      by (rule "7.IH"(2) [OF more(1) prod.collapse prod.collapse more(2)]) (use more(3) "7.prems" in simp_all)
    with a show ?thesis by simp
  qed
next
  case (8 f c rp s)
  then show ?case by (auto split: list.splits if_splits)
next
  case (9 f c rp s)
  then show ?case by (auto split: list.splits if_splits)
next
  case (10 f pos r c st)
  show ?case
  proof (cases "ms f r c st")
    case Nil
    with "10.prems" show ?thesis by (auto split: if_splits)
  next
    case (Cons y ys)
    with "10.prems" have x: "fst x = fst y" by (auto split: if_splits simp: case_prod_beta)
    from Cons have "y \<in> set (ms f r c st)" by simp
    from "10.IH" [OF this] "10.prems"(2) x show ?thesis by simp
  qed
qed

text \<open>A match contains every character the expression needs.\<close>

lemma ms_needs:
  "x \<in> set (ms f r cp st) \<Longrightarrow> needs r c \<Longrightarrow> \<not> ignoreCase f \<Longrightarrow> c \<in> set (snd st)"
proof (induction f r cp st arbitrary: x rule: ms.induct)
  case (1 f w cp st)
  obtain rp s where st: "st = (rp, s)" by (cases st) auto
  from "1.prems"(1) st obtain rp' s' where "lit_match f w (rp, s) = Some (rp', s')"
    by (cases "lit_match f w (rp, s)") auto
  from lit_match_sound [OF this] obtain u where u: "s = u @ s'" "list_all2 (ch_eq f) w u" by blast
  from "1.prems"(3) have "ch_eq f = (=)" by (intro ext) (simp add: ch_eq_def)
  with u(2) have "u = w" by (simp add: list_all2_eq [symmetric])
  with u(1) "1.prems"(2) st show ?case by simp
next
  case (4 f a b cp st)
  from "4.prems"(1) obtain y where m1: "y \<in> set (ms f a cp st)"
    and m2: "x \<in> set (ms f b (fst y) (snd y))" by (auto simp: case_prod_beta)
  from "4.prems"(2) have "needs a c \<or> needs b c" by simp
  then show ?case
  proof
    assume "needs a c"
    from "4.IH"(1) [OF m1 this "4.prems"(3)] show ?thesis .
  next
    assume "needs b c"
    from "4.IH"(2) [OF m1 prod.collapse m2 this "4.prems"(3)] have "c \<in> set (snd (snd y))" .
    moreover from ms_suffix_st [OF m1] obtain u where "snd st = u @ snd (snd y)" by blast
    ultimately show ?thesis by simp
  qed
next
  case (5 f a b cp st)
  from "5.prems" have na: "needs a c" and nb: "needs b c" by simp_all
  from "5.prems" have "x \<in> set (ms f a cp st) \<or> x \<in> set (ms f b cp st)" by simp
  then show ?case
  proof
    assume "x \<in> set (ms f a cp st)"
    from "5.IH"(1) [OF this na "5.prems"(3)] show ?thesis .
  next
    assume "x \<in> set (ms f b cp st)"
    from "5.IH"(2) [OF this nb "5.prems"(3)] show ?thesis .
  qed
next
  case (6 f k r cp rp s)
  from "6.prems" obtain y where y: "y \<in> set (ms f r cp (rp, s))" by (auto simp: case_prod_beta)
  from "6.IH" [OF y] "6.prems" show ?case by simp
qed simp_all

section \<open>Searching and replacing\<close>

lemma first_match_SomeD:
  assumes "first_match f r (rp, s) = Some m"
  shows "\<exists>c rp' s'. (c, (rp', s')) \<in> set (ms f r no_caps (rp, s)) \<and>
           m = \<lparr> m_text = take (length s - length s') s, m_caps = c, m_pre = rev rp, m_post = s' \<rparr>"
proof (cases "ms f r no_caps (rp, s)")
  case Nil
  with assms show ?thesis by (simp add: first_match_def)
next
  case (Cons y ys)
  obtain c rp' s' where y: "y = (c, (rp', s'))" by (cases y) auto
  from Cons y have "(c, (rp', s')) \<in> set (ms f r no_caps (rp, s))" by simp
  moreover from assms Cons y
  have "m = \<lparr> m_text = take (length s - length s') s, m_caps = c, m_pre = rev rp, m_post = s' \<rparr>"
    by (simp add: first_match_def)
  ultimately show ?thesis by blast
qed

lemma first_match_text:
  assumes "first_match f r (rp, s) = Some m"
  shows "m_text m @ m_post m = s" and "take (length (m_text m)) s = m_text m"
proof -
  from first_match_SomeD [OF assms] obtain c rp' s'
    where mem: "(c, (rp', s')) \<in> set (ms f r no_caps (rp, s))"
      and m: "m = \<lparr> m_text = take (length s - length s') s, m_caps = c, m_pre = rev rp, m_post = s' \<rparr>"
    by blast
  from ms_suffix [OF mem] obtain w where "s = w @ s'" by blast
  with m show "m_text m @ m_post m = s" and "take (length (m_text m)) s = m_text m" by simp_all
qed

lemma first_match_NoneI: "ms f r no_caps st \<noteq> [] \<Longrightarrow> first_match f r st \<noteq> None"
  by (cases "ms f r no_caps st") (auto simp: first_match_def split: prod.splits)

lemma first_match_absent:
  assumes "needs r c" and "\<not> ignoreCase f" and "c \<notin> set s"
  shows "first_match f r (rp, s) = None"
proof (cases "ms f r no_caps (rp, s)")
  case Nil
  then show ?thesis by (simp add: first_match_def)
next
  case (Cons y ys)
  then have "y \<in> set (ms f r no_caps (rp, s))" by simp
  from ms_needs [OF this assms(1,2)] assms(3) show ?thesis by simp
qed

lemma search_finds:
  "ms f r no_caps (rev pre @ rp0, t) \<noteq> [] \<Longrightarrow> search f r rp0 (pre @ t) \<noteq> None"
proof (induction pre arbitrary: rp0)
  case Nil
  then have "first_match f r (rp0, t) \<noteq> None" by (simp add: first_match_NoneI)
  then show ?case by (cases t) (auto split: option.splits)
next
  case (Cons x pre)
  from Cons.prems have "ms f r no_caps (rev pre @ (x # rp0), t) \<noteq> []" by simp
  from Cons.IH [OF this] show ?case by (auto split: option.splits)
qed

lemma test_contains:
  assumes "w \<in> lang f r" and "simple r"
  shows "regex_test f r (pre @ w @ post)"
proof -
  from ms_complete [OF assms, of "rev pre" post no_caps]
  have "ms f r no_caps (rev pre @ [], w @ post) \<noteq> []" by auto
  from search_finds [OF this] show ?thesis by (simp add: regex_test_def)
qed

lemma renamed_Cons: "renamed f r cb out \<Longrightarrow> renamed f r cb (x # out)"
  unfolding renamed_def by (metis append_Cons)

lemma renamed_append: "renamed f r cb out \<Longrightarrow> renamed f r cb (u @ out)"
  unfolding renamed_def by (metis append_assoc)

lemma renamed_here:
  "first_match f r st = Some m \<Longrightarrow> fst (cb m) \<noteq> m_text m \<Longrightarrow> renamed f r cb (fst (cb m) @ out)"
  unfolding renamed_def by (metis append_Nil)

text \<open>
  A scan leaves the subject as it is, unless a replacement function returned something
  else than the text it was called on.
\<close>

lemma scan_cases:
  "fst (scan f r cb k rp s) = drop k s \<or> renamed f r cb (fst (scan f r cb k rp s))"
proof (induction f r cb k rp s rule: scan.induct)
  case (1 f r cb k rp)
  show ?case
  proof (cases "k = 0")
    case False
    then show ?thesis by simp
  next
    case True
    show ?thesis
    proof (cases "first_match f r (rp, [])")
      case None
      with True show ?thesis by simp
    next
      case (Some m)
      from first_match_text(2) [OF Some] have t: "m_text m = []" by simp
      show ?thesis
      proof (cases "fst (cb m) = []")
        case True
        with \<open>k = 0\<close> Some show ?thesis by simp
      next
        case False
        with t renamed_here [where cb = cb and out = "[]", OF Some] \<open>k = 0\<close> Some show ?thesis by simp
      qed
    qed
  qed
next
  case (2 f r cb k rp x s)
  then show ?case by simp
next
  case (3 f r cb rp x s)
  show ?case
  proof (cases "first_match f r (rp, x # s)")
    case None
    with "3.IH"(1) show ?thesis by (auto simp: case_prod_beta Let_def intro: renamed_Cons)
  next
    case (Some m)
    let ?out = "if m_text m = [] then x # fst (scan f r cb 0 (x # rp) s)
                else fst (scan f r cb (length (m_text m) - 1) (x # rp) s)"
    have res: "fst (scan f r cb 0 rp (x # s)) = fst (cb m) @ ?out"
      using Some by (simp add: case_prod_beta Let_def)
    have out: "?out = drop (length (m_text m)) (x # s) \<or> renamed f r cb ?out"
    proof (cases "m_text m = []")
      case True
      with "3.IH"(2) [OF Some refl prod.collapse True] show ?thesis by (auto intro: renamed_Cons)
    next
      case False
      then obtain n where n: "length (m_text m) = Suc n" by (cases "m_text m") auto
      with "3.IH"(3) [OF Some refl prod.collapse False] False show ?thesis by auto
    qed
    show ?thesis
    proof (cases "fst (cb m) = m_text m")
      case False
      with renamed_here [where cb = cb and out = ?out, OF Some False] res show ?thesis by simp
    next
      case True
      from out show ?thesis
      proof
        assume "?out = drop (length (m_text m)) (x # s)"
        with True res first_match_text(2) [OF Some]
        have "fst (scan f r cb 0 rp (x # s))
                = take (length (m_text m)) (x # s) @ drop (length (m_text m)) (x # s)"
          by (simp del: scan.simps)
        then have "fst (scan f r cb 0 rp (x # s)) = drop 0 (x # s)"
          by (simp only: append_take_drop_id drop_0)
        then show ?thesis by (rule disjI1)
      next
        assume "renamed f r cb ?out"
        with res renamed_append show ?thesis by simp
      qed
    qed
  qed
qed

lemma scan_flag_False:
  assumes "\<forall>m. \<not> snd (cb m) \<longrightarrow> fst (cb m) = m_text m"
  shows "\<not> snd (scan f r cb k rp s) \<Longrightarrow> fst (scan f r cb k rp s) = drop k s"
  using assms
proof (induction f r cb k rp s rule: scan.induct)
  case (1 f r cb k rp)
  show ?case
  proof (cases "first_match f r (rp, [])")
    case None
    then show ?thesis by simp
  next
    case (Some m)
    from first_match_text(2) [OF Some] have t: "m_text m = []" by simp
    show ?thesis
    proof (cases "k = 0")
      case True
      with Some "1.prems" have "\<not> snd (cb m)" by simp
      with "1.prems"(2) t True Some show ?thesis by simp
    next
      case False
      then show ?thesis by simp
    qed
  qed
next
  case (2 f r cb k rp x s)
  then show ?case by simp
next
  case (3 f r cb rp x s)
  note cbp = "3.prems"(2)
  show ?case
  proof (cases "first_match f r (rp, x # s)")
    case None
    with "3.prems"(1) have "\<not> snd (scan f r cb 0 (x # rp) s)" by (simp add: case_prod_beta Let_def)
    from "3.IH"(1) [OF None this cbp] None show ?thesis by (simp add: case_prod_beta Let_def)
  next
    case (Some m)
    let ?sc = "if m_text m = [] then (let (o', f') = scan f r cb 0 (x # rp) s in (x # o', f'))
                else scan f r cb (length (m_text m) - 1) (x # rp) s"
    have res: "scan f r cb 0 rp (x # s) = (fst (cb m) @ fst ?sc, snd (cb m) \<or> snd ?sc)"
      using Some by (simp add: case_prod_beta Let_def)
    with "3.prems" have f1: "\<not> snd (cb m)" and f2: "\<not> snd ?sc" by simp_all
    from cbp f1 have rep: "fst (cb m) = m_text m" by simp
    have out: "fst ?sc = drop (length (m_text m)) (x # s)"
    proof (cases "m_text m = []")
      case True
      with f2 have "\<not> snd (scan f r cb 0 (x # rp) s)" by (simp add: case_prod_beta)
      with "3.IH"(2) [OF Some refl prod.collapse True _ cbp] True show ?thesis by (simp add: case_prod_beta)
    next
      case False
      then obtain n where n: "length (m_text m) = Suc n" by (cases "m_text m") auto
      from False f2 have "\<not> snd (scan f r cb (length (m_text m) - 1) (x # rp) s)" by simp
      with "3.IH"(3) [OF Some refl prod.collapse False _ cbp] False n show ?thesis by simp
    qed
    from res rep out first_match_text(2) [OF Some]
    have "fst (scan f r cb 0 rp (x # s))
            = take (length (m_text m)) (x # s) @ drop (length (m_text m)) (x # s)"
      by (simp del: scan.simps)
    then show ?thesis by (simp only: append_take_drop_id drop_0)
  qed
qed

lemma scan_flag_True:
  assumes "\<forall>m. snd (cb m) \<longrightarrow> fst (cb m) = lit"
  shows "snd (scan f r cb k rp s) \<Longrightarrow> \<exists>A B. fst (scan f r cb k rp s) = A @ lit @ B"
  using assms
proof (induction f r cb k rp s rule: scan.induct)
  case (1 f r cb k rp)
  then obtain m where "first_match f r (rp, []) = Some m" "k = 0" "snd (cb m)"
    by (auto split: if_splits option.splits)
  with "1.prems"(2) have "fst (scan f r cb k rp []) = [] @ lit @ []" by simp
  then show ?case by blast
next
  case (2 f r cb k rp x s)
  then show ?case by simp
next
  case (3 f r cb rp x s)
  note cbp = "3.prems"(2)
  show ?case
  proof (cases "first_match f r (rp, x # s)")
    case None
    with "3.prems" have "snd (scan f r cb 0 (x # rp) s)" by (simp add: case_prod_beta Let_def)
    from "3.IH"(1) [OF None this cbp] obtain A B where "fst (scan f r cb 0 (x # rp) s) = A @ lit @ B" by blast
    with None have "fst (scan f r cb 0 rp (x # s)) = (x # A) @ lit @ B" by (simp add: case_prod_beta Let_def)
    then show ?thesis by blast
  next
    case (Some m)
    let ?sc = "if m_text m = [] then (let (o', f') = scan f r cb 0 (x # rp) s in (x # o', f'))
                else scan f r cb (length (m_text m) - 1) (x # rp) s"
    have res: "scan f r cb 0 rp (x # s) = (fst (cb m) @ fst ?sc, snd (cb m) \<or> snd ?sc)"
      using Some by (simp add: case_prod_beta Let_def)
    show ?thesis
    proof (cases "snd (cb m)")
      case True
      with cbp res have "fst (scan f r cb 0 rp (x # s)) = [] @ lit @ fst ?sc" by simp
      then show ?thesis by blast
    next
      case False
      with res "3.prems" have f2: "snd ?sc" by simp
      have "\<exists>A B. fst ?sc = A @ lit @ B"
      proof (cases "m_text m = []")
        case True
        with f2 have "snd (scan f r cb 0 (x # rp) s)" by (simp add: case_prod_beta)
        from "3.IH"(2) [OF Some refl prod.collapse True this cbp] obtain A B
          where "fst (scan f r cb 0 (x # rp) s) = A @ lit @ B" by blast
        with True have "fst ?sc = (x # A) @ lit @ B" by (simp add: case_prod_beta)
        then show ?thesis by blast
      next
        case False
        with f2 have "snd (scan f r cb (length (m_text m) - 1) (x # rp) s)" by simp
        from "3.IH"(3) [OF Some refl prod.collapse False this cbp] False show ?thesis by simp
      qed
      then obtain A B where "fst ?sc = A @ lit @ B" by blast
      with res have "fst (scan f r cb 0 rp (x # s)) = (fst (cb m) @ A) @ lit @ B" by simp
      then show ?thesis by blast
    qed
  qed
qed

text \<open>Without a character that the expression needs, nothing is replaced.\<close>

lemma scan_absent:
  assumes "needs r c" and "\<not> ignoreCase f"
  shows "c \<notin> set s \<Longrightarrow> scan f r cb 0 rp s = (s, False)"
proof (induction s arbitrary: rp)
  case Nil
  from first_match_absent [OF assms, of "[]" rp] show ?case by simp
next
  case (Cons x s)
  from first_match_absent [OF assms Cons.prems, of rp] Cons.IH [of "x # rp"] Cons.prems
  show ?case by simp
qed

lemma replace_re_absent:
  "needs r c \<Longrightarrow> \<not> ignoreCase f \<Longrightarrow> c \<notin> set s \<Longrightarrow> replace_re f r n template s = s"
  by (simp add: replace_re_def replace_cb_def scan_absent)

section \<open>The Code Normalizer\<close>

lemma lang_SeqI: "u \<in> lang f a \<Longrightarrow> v \<in> lang f b \<Longrightarrow> u @ v \<in> lang f (Seq a b)"
  by auto

lemma any_case_Lit: "any_case w u \<Longrightarrow> u \<in> lang flag_i (Lit w)"
proof -
  assume "any_case w u"
  then have "map ascii_upper w = map ascii_upper u" by (simp add: any_case_def)
  then have "list_all2 (\<lambda>a x. ascii_upper a = ascii_upper x) w u"
    by (induction w arbitrary: u) (auto simp: list_all2_Cons1)
  moreover have "ch_eq flag_i = (\<lambda>a x. ascii_upper a = ascii_upper x)"
    by (intro ext) (simp add: ch_eq_def flag_i_def)
  ultimately show ?thesis by simp
qed

lemma exactly_any_case: "exactly w u \<Longrightarrow> any_case w u"
  by (simp add: exactly_def any_case_def)

lemma ws_star: "ws_run a \<Longrightarrow> a \<in> star (lang f ws)"
proof (induction a)
  case Nil
  show ?case by (rule star_nil)
next
  case (Cons x a)
  then have "[x] \<in> lang f ws" and "ws_run a" by (auto simp: ws_run_def in_items_def)
  with Cons.IH have "[x] @ a \<in> star (lang f ws)" by (intro star_step) auto
  then show ?case by simp
qed

lemma lang_ws_star: "ws_run a \<Longrightarrow> a \<in> lang f (Star g ws)"
  by (simp only: lang.simps(7) ws_star)

lemma lang_ws_plus: "ws_run a \<Longrightarrow> a \<noteq> [] \<Longrightarrow> a \<in> lang f (plus g ws)"
proof -
  assume a: "ws_run a" "a \<noteq> []"
  then obtain x t where xt: "a = x # t" by (cases a) auto
  with a have "[x] \<in> lang f ws" and "ws_run t"
    by (auto simp: ws_run_def in_items_def)
  then have "[x] \<in> lang f ws" "t \<in> lang f (Star g ws)"
    by (simp_all only: lang_ws_star)
  then have "[x] @ t \<in> lang f (plus g ws)" unfolding plus_def by (rule lang_SeqI)
  with xt show ?thesis by simp
qed

lemma in_items_rparen: "in_items f [One 41] x = (x = 41)"
  by (auto simp: in_items_def ascii_upper_def ascii_lower_def)

lemma not_rparen_star: "41 \<notin> set xs \<Longrightarrow> xs \<in> star (lang f (CSet True [One 41]))"
proof (induction xs)
  case Nil
  show ?case by (rule star_nil)
next
  case (Cons x xs)
  then have "[x] \<in> lang f (CSet True [One 41])" by (simp add: in_items_rparen)
  with Cons have "[x] @ xs \<in> star (lang f (CSet True [One 41]))" by (intro star_step) auto
  then show ?case by simp
qed

lemma star_not_rparen: "xs \<in> star (lang f (CSet True [One 41])) \<Longrightarrow> 41 \<notin> set xs"
  by (induction xs rule: star.induct) (auto simp: in_items_rparen)

lemma Lit_exact: "\<not> ignoreCase f \<Longrightarrow> lang f (Lit w) = {w}"
proof -
  assume "\<not> ignoreCase f"
  then have "ch_eq f = (=)" by (intro ext) (simp add: ch_eq_def)
  then show ?thesis by (auto simp: list_all2_eq [symmetric])
qed

lemma Lit_self: "w \<in> lang f (Lit w)"
  by (simp add: list_all2_same ch_eq_def)

lemma params_lang_I: "is_params p \<Longrightarrow> p \<in> lang f params_body"
  unfolding is_params_def params_body_def
proof (elim disjE exE conjE)
  assume "p = []"
  then show "p \<in> lang f (Alt (seqs [Lit (js ''(''), Star True (CSet True [One 41]), Lit (js '')'')]) (Lit []))"
    by simp
next
  fix xs assume p: "p = js ''('' @ xs @ js '')''" and xs: "41 \<notin> set xs"
  have "js ''('' @ xs @ js '')'' \<in> lang f (Seq (Lit (js ''('')) (Seq (Star True (CSet True [One 41])) (Lit (js '')''))))"
    by (intro lang_SeqI Lit_self) (simp only: lang.simps(7) not_rparen_star [OF xs])
  with p show "p \<in> lang f (Alt (seqs [Lit (js ''(''), Star True (CSet True [One 41]), Lit (js '')'')]) (Lit []))"
    by simp
qed

lemma params_lang_D: "p \<in> lang plain params_body \<Longrightarrow> is_params p"
proof -
  assume "p \<in> lang plain params_body"
  then consider "p = []"
    | u v w where "p = u @ v @ w" "u \<in> lang plain (Lit (js ''(''))"
        "v \<in> star (lang plain (CSet True [One 41]))" "w \<in> lang plain (Lit (js '')''))"
    by (auto simp: params_body_def)
  then show ?thesis
  proof cases
    case 1
    then show ?thesis by (simp add: is_params_def)
  next
    case 2
    have "\<not> ignoreCase plain" by (simp add: plain_def)
    from 2(2,4) Lit_exact [OF this] have "u = js ''(''" "w = js '')''" by blast+
    with 2(1) star_not_rparen [OF 2(3)] show ?thesis by (auto simp: is_params_def)
  qed
qed

lemma has_app_simple: "simple has_app_re"
  by (simp add: has_app_re_def params_body_def plus_def)

lemma app_declaration_lang:
  assumes "app_declaration any_case d"
  shows "d \<in> lang flag_i has_app_re"
  using assms
proof cases
  case (function_declaration k a n b)
  have "k @ a @ n @ b @ js ''('' \<in> lang flag_i
      (Seq (Lit (js ''function'')) (Seq (plus True ws) (Seq (Lit (js ''App'')) (Seq (Star True ws) (Lit (js ''(''))))))"
    using function_declaration by (intro lang_SeqI any_case_Lit lang_ws_plus lang_ws_star Lit_self)
  with function_declaration(1) show ?thesis by (simp add: has_app_re_def)
next
  case (arrow_assignment k a n b c p e)
  from params_lang_I [OF arrow_assignment(8)]
  have pl: "p \<in> lang flag_i (Group 1 params_body)" by simp
  have "k @ a @ n @ b @ js ''='' @ c @ p @ e @ js ''=>'' \<in> lang flag_i
      (Seq (Lit (js ''const'')) (Seq (plus True ws) (Seq (Lit (js ''App'')) (Seq (Star True ws)
        (Seq (Lit (js ''='')) (Seq (Star True ws)
          (Seq (Group 1 params_body) (Seq (Star True ws) (Lit (js ''=>''))))))))))"
    using arrow_assignment pl by (intro lang_SeqI any_case_Lit lang_ws_plus lang_ws_star Lit_self)
  with arrow_assignment(1) show ?thesis by (simp add: has_app_re_def)
next
  case (class_declaration k a n b e c q)
  have "k @ a @ n @ b @ e @ c @ q \<in> lang flag_i
      (Seq (Lit (js ''class'')) (Seq (plus True ws) (Seq (Lit (js ''App'')) (Seq (plus True ws)
        (Seq (Lit (js ''extends'')) (Seq (plus True ws) (Lit (js ''React.Component''))))))))"
    using class_declaration by (intro lang_SeqI any_case_Lit lang_ws_plus lang_ws_star)
  with class_declaration(1) show ?thesis by (simp add: has_app_re_def)
qed

lemma app_declaration_test:
  "app_declaration any_case d \<Longrightarrow> regex_test flag_i has_app_re (pre @ d @ post)"
  by (rule test_contains [OF app_declaration_lang has_app_simple])

lemma app_declaration_mono:
  "app_declaration exactly d \<Longrightarrow> app_declaration any_case d"
  by (induction rule: app_declaration.induct)
     (auto intro: app_declaration.intros exactly_any_case)

lemma cap_in_Group: "simple r \<Longrightarrow> cap_in f (Group k r) k (lang f r)"
  unfolding cap_in_def
proof (intro allI ballI)
  fix c st x
  assume sr: "simple r" and x: "x \<in> set (ms f (Group k r) c st)"
  obtain rp s where st: "st = (rp, s)" by (cases st) auto
  from x st obtain y where y: "y \<in> set (ms f r c (rp, s))"
    and xk: "fst x k = Some (take (length s - length (snd (snd y))) s)"
    by (auto simp: case_prod_beta)
  from ms_sound [OF y sr] obtain w where "s = w @ snd (snd y)" "w \<in> lang f r" by auto
  with xk show "\<exists>w. fst x k = Some w \<and> w \<in> lang f r" by auto
qed

lemma cap_in_Seq_right: "cap_in f b k L \<Longrightarrow> cap_in f (Seq a b) k L"
  unfolding cap_in_def by (meson ms_Seq_E)

lemma cap_in_Seq_left:
  assumes "cap_in f a k L" and "k \<notin> set (groups b)"
  shows "cap_in f (Seq a b) k L"
  unfolding cap_in_def
proof (intro allI ballI)
  fix c st x
  assume "x \<in> set (ms f (Seq a b) c st)"
  then obtain y where y: "y \<in> set (ms f a c st)" and x: "x \<in> set (ms f b (fst y) (snd y))"
    by (rule ms_Seq_E)
  from assms(1) y obtain w where "fst y k = Some w" "w \<in> L" unfolding cap_in_def by blast
  with ms_frame [OF x assms(2)] show "\<exists>w. fst x k = Some w \<and> w \<in> L" by simp
qed

lemma arrow_params:
  assumes "first_match plain arrow_re st = Some m"
  shows "\<exists>p. m_caps m 2 = Some p \<and> is_params p"
proof -
  have "simple params_body" by (simp add: params_body_def)
  then have "cap_in plain (Seq (Group 2 params_body) (Seq (Star True ws) (Lit (js ''=>'')))) 2
               (lang plain params_body)"
    by (intro cap_in_Seq_left cap_in_Group) simp_all
  then have c: "cap_in plain arrow_re 2 (lang plain params_body)"
    unfolding arrow_re_def seqs.simps
    by (intro cap_in_Seq_right [of _ "Seq (Group 2 params_body) (Seq (Star True ws) (Lit (js ''=>'')))"]
          cap_in_Seq_right [of _ "Seq (Star True ws) (Seq (Group 2 params_body) (Seq (Star True ws) (Lit (js ''=>''))))"]
          cap_in_Seq_right [of _ "Seq (Lit (js ''='')) (Seq (Star True ws) (Seq (Group 2 params_body) (Seq (Star True ws) (Lit (js ''=>'')))))"]
          cap_in_Seq_right [of _ "Seq (Star True ws) (Seq (Lit (js ''='')) (Seq (Star True ws) (Seq (Group 2 params_body) (Seq (Star True ws) (Lit (js ''=>''))))))"]
          cap_in_Seq_right [of _ "Seq name_re (Seq (Star True ws) (Seq (Lit (js ''='')) (Seq (Star True ws) (Seq (Group 2 params_body) (Seq (Star True ws) (Lit (js ''=>'')))))))"]
          cap_in_Seq_right [of _ "Seq (plus True ws) (Seq name_re (Seq (Star True ws) (Seq (Lit (js ''='')) (Seq (Star True ws) (Seq (Group 2 params_body) (Seq (Star True ws) (Lit (js ''=>''))))))))"])
  obtain rp s where st: "st = (rp, s)" by (cases st) auto
  from first_match_SomeD [OF assms [unfolded st]] obtain cp rp' s'
    where "(cp, (rp', s')) \<in> set (ms plain arrow_re no_caps (rp, s))" and "m_caps m = cp"
    by auto
  with c obtain w where "m_caps m 2 = Some w" "w \<in> lang plain params_body"
    unfolding cap_in_def by fastforce
  with params_lang_D show ?thesis by blast
qed

lemma function_App_declaration: "app_declaration any_case (js ''function App('')"
proof -
  have "app_declaration any_case (js ''function'' @ js '' '' @ js ''App'' @ [] @ js ''('')"
    by (rule function_declaration) (simp_all add: any_case_def ws_run_def isWhiteSpace_def js_def)
  then show ?thesis by (simp add: js_def)
qed

lemma class_App_declaration: "app_declaration any_case (js ''class App extends React.Component'')"
proof -
  have "app_declaration any_case
          (js ''class'' @ js '' '' @ js ''App'' @ js '' '' @ js ''extends'' @ js '' '' @ js ''React.Component'')"
    by (rule class_declaration) (simp_all add: any_case_def ws_run_def isWhiteSpace_def js_def)
  then show ?thesis by (simp add: js_def)
qed

lemma const_App_declaration:
  assumes "is_params p"
  shows "app_declaration any_case (js ''const App = '' @ p @ js '' =>'')"
proof -
  have "app_declaration any_case
          (js ''const'' @ js '' '' @ js ''App'' @ js '' '' @ js ''='' @ js '' '' @ p @ js '' '' @ js ''=>'')"
    by (rule arrow_assignment) (simp_all add: assms any_case_def ws_run_def isWhiteSpace_def js_def)
  then show ?thesis by (simp add: js_def)
qed

text \<open>
  What the Normalizer returns declares the entry name, or is the input: after a
  replacement the output holds the text that was put in.
\<close>

lemma rename_settles:
  "regex_test flag_i has_app_re (renameComponentToApp s) \<or> renameComponentToApp s = s"
proof (cases "regex_test flag_i has_app_re s")
  case True
  then show ?thesis by (simp add: renameComponentToApp_def)
next
  case False
  define cb1 where "cb1 = (\<lambda>m. if keep_match m then (m_text m, False) else (js ''function App('', True))"
  define cb2 where "cb2 = (\<lambda>m. if keep_match m then (m_text m, False)
                           else (js ''const App = '' @ to_str (m_caps m 2) @ js '' =>'', False))"
  define cb3 where "cb3 = (\<lambda>m. if keep_match m then (m_text m, False)
                           else (js ''class App extends React.Component'', False))"
  define r1 where "r1 = scan plain function_re cb1 0 [] s"
  define code2 where "code2 = (if \<not> snd r1 then fst (scan plain arrow_re cb2 0 [] (fst r1)) else fst r1)"
  define code3 where "code3 = fst (scan plain class_re cb3 0 [] code2)"
  have f: "renameComponentToApp s = code3"
    using False
    by (simp add: renameComponentToApp_def replace_cb_def case_prod_beta Let_def
        cb1_def cb2_def cb3_def r1_def code2_def code3_def)
  have step3: "code3 = code2 \<or> regex_test flag_i has_app_re code3"
  proof -
    from scan_cases [of plain class_re cb3 0 "[]" code2]
    have "code3 = code2 \<or> renamed plain class_re cb3 code3" by (simp add: code3_def)
    then show ?thesis
    proof
      assume "renamed plain class_re cb3 code3"
      then obtain A B m where c: "code3 = A @ fst (cb3 m) @ B" and n: "fst (cb3 m) \<noteq> m_text m"
        unfolding renamed_def by blast
      from n have "fst (cb3 m) = js ''class App extends React.Component''"
        by (auto simp: cb3_def split: if_splits)
      with c app_declaration_test [OF class_App_declaration, of A B] show ?thesis by simp
    qed simp
  qed
  have step12: "regex_test flag_i has_app_re code2 \<or> code2 = s"
  proof (cases "snd r1")
    case True
    have "\<forall>m. snd (cb1 m) \<longrightarrow> fst (cb1 m) = js ''function App(''" by (simp add: cb1_def)
    from scan_flag_True [OF this, of plain function_re 0 "[]" s] True
    obtain A B where "fst r1 = A @ js ''function App('' @ B" by (auto simp: r1_def)
    with True app_declaration_test [OF function_App_declaration, of A B] show ?thesis
      by (simp add: code2_def)
  next
    case False
    have "\<forall>m. \<not> snd (cb1 m) \<longrightarrow> fst (cb1 m) = m_text m" by (simp add: cb1_def)
    from scan_flag_False [OF this, of plain function_re 0 "[]" s] False
    have r1s: "fst r1 = s" by (simp add: r1_def)
    with False have c2: "code2 = fst (scan plain arrow_re cb2 0 [] s)" by (simp add: code2_def)
    from scan_cases [of plain arrow_re cb2 0 "[]" s] c2
    have "code2 = s \<or> renamed plain arrow_re cb2 code2" by simp
    then show ?thesis
    proof
      assume "renamed plain arrow_re cb2 code2"
      then obtain A B m st where c: "code2 = A @ fst (cb2 m) @ B"
        and fm: "first_match plain arrow_re st = Some m" and n: "fst (cb2 m) \<noteq> m_text m"
        unfolding renamed_def by blast
      from arrow_params [OF fm] obtain p where p: "m_caps m 2 = Some p" "is_params p" by blast
      from n p(1) have "fst (cb2 m) = js ''const App = '' @ p @ js '' =>''"
        by (auto simp: cb2_def to_str_def split: if_splits)
      with c app_declaration_test [OF const_App_declaration [OF p(2)], of A B] show ?thesis by simp
    qed simp
  qed
  from step3 step12 f show ?thesis by auto
qed

text \<open>
  C2.  The Code Normalizer is idempotent: applied to its own output it returns that
  output, for every input string.
\<close>

theorem renameComponentToApp_idempotent:
  "renameComponentToApp (renameComponentToApp s) = renameComponentToApp s"
proof -
  from rename_settles [of s] show ?thesis
  proof
    assume "regex_test flag_i has_app_re (renameComponentToApp s)"
    then show ?thesis by (simp add: renameComponentToApp_def [of "renameComponentToApp s"])
  next
    assume "renameComponentToApp s = s"
    then show ?thesis by simp
  qed
qed

text \<open>
  C3 (the code differs).  On a source with a function declaration and a class declaration
  the Normalizer renames both: the class replacement is not guarded by the flag that
  guards the arrow-function replacement.
\<close>

theorem renames_function_and_class:
  "renameComponentToApp (js ''function Foo(){} class Bar extends React.Component{}'')
     = js ''function App(){} class App extends React.Component{}''"
  by (simp add: renameComponentToApp_def regex_test_def replace_cb_def first_match_def
      has_app_re_def function_re_def arrow_re_def class_re_def name_re_def params_body_def plus_def
      flag_i_def plain_def ch_eq_def in_items_def isWhiteSpace_def ascii_upper_def ascii_lower_def
      keep_match_def js_trim_def startsWith_def no_caps_def clear_def to_str_def js_def)

text \<open>
  C6 (the code differs).  The check for an existing \<^verbatim>\<open>App\<close> knows an arrow function only
  with a parenthesised parameter list or with none.  A source that assigns an arrow
  function with a bare parameter to \<^verbatim>\<open>App\<close> passes the check as if it declared no
  \<^verbatim>\<open>App\<close>; the function declared next to it is renamed, and the result, which differs from
  the input, declares \<^verbatim>\<open>App\<close> twice.
\<close>

theorem bare_parameter_App_missed:
  "renameComponentToApp (js ''const App = x => x; function Foo(){}'')
     = js ''const App = x => x; function App(){}''"
  by (simp add: renameComponentToApp_def regex_test_def replace_cb_def first_match_def
      has_app_re_def function_re_def arrow_re_def class_re_def name_re_def params_body_def plus_def
      flag_i_def plain_def ch_eq_def in_items_def isWhiteSpace_def ascii_upper_def ascii_lower_def
      keep_match_def js_trim_def startsWith_def no_caps_def clear_def to_str_def js_def)

text \<open>
  For the declarations the check does know (a function declaration, an arrow function
  with a parenthesised parameter list or none, a class extending \<^verbatim>\<open>React.Component\<close>), the
  source is returned unchanged, whatever surrounds the declaration.
\<close>

lemma known_App_unchanged:
  "app_declaration exactly d \<Longrightarrow> renameComponentToApp (pre @ d @ post) = pre @ d @ post"
  by (simp add: renameComponentToApp_def app_declaration_test app_declaration_mono)

text \<open>
  C9.  The test for an existing entry point ignores the case of letters: a source that
  contains a declaration of \<^verbatim>\<open>App\<close> in any spelling of upper and lower case, such as
  \<^verbatim>\<open>function app(\<close>, is returned unchanged, whatever else it contains.
\<close>

theorem any_case_App_unchanged:
  "app_declaration any_case d \<Longrightarrow> renameComponentToApp (pre @ d @ post) = pre @ d @ post"
  by (simp add: renameComponentToApp_def app_declaration_test)

theorem any_case_App_unchanged_witness:
  "app_declaration any_case (js ''function app('') \<and>
   renameComponentToApp ([] @ js ''function app('' @ js ''){} function Foo(){}'')
     = [] @ js ''function app('' @ js ''){} function Foo(){}'' \<and>
   renameComponentToApp (js ''function Foo(){}'') = js ''function App(){}''"
proof -
  have "app_declaration any_case (js ''function'' @ js '' '' @ js ''app'' @ [] @ js ''('')"
    by (rule function_declaration)
       (simp_all add: any_case_def ws_run_def isWhiteSpace_def ascii_upper_def js_def)
  then have d: "app_declaration any_case (js ''function app('')" by (simp add: js_def)
  have e: "renameComponentToApp (js ''function Foo(){}'') = js ''function App(){}''"
    by (simp add: renameComponentToApp_def regex_test_def replace_cb_def first_match_def
      has_app_re_def function_re_def arrow_re_def class_re_def name_re_def params_body_def plus_def
      flag_i_def plain_def ch_eq_def in_items_def isWhiteSpace_def ascii_upper_def ascii_lower_def
      keep_match_def js_trim_def startsWith_def no_caps_def clear_def to_str_def js_def)
  from d e any_case_App_unchanged [OF d, of "[]" "js ''){} function Foo(){}''"]
  show ?thesis by simp
qed

section \<open>The regeneration update\<close>

lemma map_replace_absent:
  "\<forall>v \<in> set vs. v_id v \<noteq> visId \<Longrightarrow> map (\<lambda>v. if v_id v = visId then upd else v) vs = vs"
  by (induction vs) auto

lemma regenerate_tab_absent:
  "\<forall>v \<in> set (t_visualizations tab). v_id v \<noteq> visId \<Longrightarrow> regenerate_tab active visId upd tab = tab"
  by (simp add: regenerate_tab_def map_replace_absent)

lemma regenerate_tab_length:
  "length (t_visualizations (regenerate_tab active visId upd tab)) = length (t_visualizations tab)"
  by (simp add: regenerate_tab_def)

text \<open>
  C10.  The update after a regeneration replaces artifacts by id only.  It keeps the number
  of sessions and, in every session, the number of artifacts (nothing is added); and a
  session whose artifact list has no artifact with the regenerated id comes out of the
  update identical, in all its fields, whether it is the active session or not.
\<close>

theorem regenerate_frame:
  "length (regenerate_tabs active visId upd tabs) = length tabs \<and>
   (\<forall>i < length tabs.
      length (t_visualizations (regenerate_tabs active visId upd tabs ! i))
        = length (t_visualizations (tabs ! i)) \<and>
      ((\<forall>v \<in> set (t_visualizations (tabs ! i)). v_id v \<noteq> visId) \<longrightarrow>
         regenerate_tabs active visId upd tabs ! i = tabs ! i))"
  by (simp add: regenerate_tabs_def regenerate_tab_length regenerate_tab_absent)

theorem regenerate_frame_witness:
  "regenerate_tabs (js ''t1'') (js ''abc'') (updatedVisualization (js ''abc'') (js ''d'') (js ''new''))
     [\<lparr> t_id = js ''t1'', t_title = js ''a.pdf'', t_content = js ''x'',
        t_visualizations = [\<lparr> v_id = js ''def'', v_description = js ''d'', v_code = js ''old'',
                               v_status = Some (js ''ready''), v_error = None \<rparr>],
        t_fileData = None \<rparr>] ! 0
   = \<lparr> t_id = js ''t1'', t_title = js ''a.pdf'', t_content = js ''x'',
        t_visualizations = [\<lparr> v_id = js ''def'', v_description = js ''d'', v_code = js ''old'',
                               v_status = Some (js ''ready''), v_error = None \<rparr>],
        t_fileData = None \<rparr>"
  using regenerate_frame [of "js ''t1''" "js ''abc''"
      "updatedVisualization (js ''abc'') (js ''d'') (js ''new'')"
      "[\<lparr> t_id = js ''t1'', t_title = js ''a.pdf'', t_content = js ''x'',
        t_visualizations = [\<lparr> v_id = js ''def'', v_description = js ''d'', v_code = js ''old'',
                               v_status = Some (js ''ready''), v_error = None \<rparr>],
        t_fileData = None \<rparr>]"]
  by (simp add: js_def)

section \<open>Persistence\<close>

lemma vis_roundtrip: "vis_of_json (json_of_vis v) = Some v"
  by (cases v)
     (simp add: vis_of_json_def json_of_vis_def str_field_def opt_str_field_def field_def only_fields_def
        opt_field_def js_def split: option.splits)

lemma those_vis_roundtrip: "those_opt (map (vis_of_json \<circ> json_of_vis) vs) = Some vs"
  by (induction vs) (simp_all add: vis_roundtrip)

lemma tab_roundtrip: "tab_of_json (json_of_tab t) = Some t"
  by (cases t)
     (simp add: tab_of_json_def json_of_tab_def str_field_def opt_str_field_def field_def only_fields_def
        opt_field_def js_def those_vis_roundtrip split: option.splits)

lemma those_tab_roundtrip: "those_opt (map (tab_of_json \<circ> json_of_tab) ts) = Some ts"
  by (induction ts) (simp_all add: tab_roundtrip)

text \<open>A serialised list of tabs reads as the list, and mapping over it does not throw.\<close>

lemma JSON_roundtrip: "tabs_of_json (JSON_stringify tabs) = Some tabs"
  by (simp add: tabs_of_json_def JSON_stringify_def those_tab_roundtrip)

lemma stringify_maps: "\<not> map_throws (JSON_stringify tabs)"
proof -
  have "has_visualizations (json_of_tab t)" for t
    by (simp add: has_visualizations_def json_of_tab_def field_def opt_field_def js_def split: option.splits)
  then show ?thesis
    by (simp add: map_throws_def JSON_stringify_def list_all_iff)
qed

lemma save_True:
  assumes "fst (saveToLocalStorage key data b)"
  shows "items (snd (saveToLocalStorage key data b)) key = Some (JSON_stringify data) \<or>
         items (snd (saveToLocalStorage key data b)) key = Some (JSON_stringify (strippedData data))"
  using assms
  by (auto simp: saveToLocalStorage_def setItem_def Let_def log_def alert_def
      split: if_splits prod.splits)

lemma load_stored:
  assumes "items b (js ''learningTabs'') = Some (JSON_stringify tabs)"
  shows "load_effect b st =
     Some (b, if tabs = [] then st\<lparr> s_learningTabs := [] \<rparr>
              else st\<lparr> s_learningTabs := map restore_tab tabs,
                        s_activeTab := Some (t_id (last tabs)), s_view := Content \<rparr>)"
  using assms
  by (simp add: load_effect_def JSON_roundtrip stringify_maps Let_def last_map restore_tab_def)

lemma restore_vis_typed: "status_typed v \<Longrightarrow> restore_vis v = default_status v"
  by (auto simp: status_typed_def restore_vis_def default_status_def js_def)

lemma stripped_simps:
  "length (strippedData tabs) = length tabs"
  "map t_id (strippedData tabs) = map t_id tabs"
  "map t_title (strippedData tabs) = map t_title tabs"
  "map t_content (strippedData tabs) = map t_content tabs"
  "map t_visualizations (strippedData tabs) = map t_visualizations tabs"
  "tabs \<noteq> [] \<Longrightarrow> t_id (last (strippedData tabs)) = t_id (last tabs)"
  "(strippedData tabs = []) = (tabs = [])"
  by (simp_all add: strippedData_def last_map)

lemma restore_simps:
  "map t_id (map restore_tab tabs) = map t_id tabs"
  "map t_title (map restore_tab tabs) = map t_title tabs"
  "map t_content (map restore_tab tabs) = map t_content tabs"
  "map t_fileData (map restore_tab tabs) = map t_fileData tabs"
  "map t_visualizations (map restore_tab tabs) = map (\<lambda>t. map restore_vis (t_visualizations t)) tabs"
  by (simp_all add: restore_tab_def)

text \<open>What the loading effect restores after a save that returned \<^verbatim>\<open>true\<close>.\<close>

lemma save_then_load:
  assumes ok: "fst (saveToLocalStorage (js ''learningTabs'') tabs b)" and ne: "tabs \<noteq> []"
  shows "\<exists>kept. (kept = tabs \<or> kept = strippedData tabs) \<and>
           load_effect (save_effect tabs b) initial_state =
             Some (save_effect tabs b,
                   \<lparr> s_learningTabs = map restore_tab kept, s_activeTab = Some (t_id (last tabs)),
                     s_view = Content \<rparr>)"
proof -
  let ?b = "snd (saveToLocalStorage (js ''learningTabs'') tabs b)"
  from ne have se: "save_effect tabs b = ?b" by (simp add: save_effect_def)
  from save_True [OF ok] show ?thesis
  proof
    assume "items ?b (js ''learningTabs'') = Some (JSON_stringify tabs)"
    from load_stored [OF this, of initial_state] ne se show ?thesis
      by (intro exI [of _ tabs]) (simp add: initial_state_def)
  next
    assume "items ?b (js ''learningTabs'') = Some (JSON_stringify (strippedData tabs))"
    from load_stored [OF this, of initial_state] ne se show ?thesis
      by (intro exI [of _ "strippedData tabs"]) (simp add: initial_state_def stripped_simps)
  qed
qed

lemma save_empty_then_load:
  "load_effect (save_effect [] b) initial_state = Some (save_effect [] b, initial_state)"
  by (simp add: save_effect_def removeItem_def load_effect_def)

text \<open>
  C4.  The claim speaks of a one-time notice.  The notice is shown by every save that
  overflows: only the stored copy loses the document data, the sessions of the state keep
  it, and the next change of the list saves them again.  Here the list is saved after the
  first upload and after the second, each save overflows and is retried without the data,
  and the notice is shown twice.
\<close>

theorem quota_notice_repeats:
  "alerts (save_effect two_sessions (save_effect one_session every_other_write_fails))
     = [quota_notice, quota_notice]"
  by (simp add: save_effect_def saveToLocalStorage_def setItem_def Let_def log_def alert_def
      two_sessions_def one_session_def handleBeginLearning_def every_other_write_fails_def)

text \<open>
  C4, amended.  When the first write of a save of the session list fails with
  \<^verbatim>\<open>QuotaExceededError\<close>, that save makes exactly one more write, of the list with
  \<^verbatim>\<open>fileData\<close> removed from every session and nothing else changed.  If that write succeeds
  the stripped list is stored, the save shows the notice once and returns \<^verbatim>\<open>true\<close>; if it
  fails too, the store and the notices stay as they were, the failure is logged and the
  save returns \<^verbatim>\<open>false\<close>.  The notice is once for each such save, not once for the session.
\<close>

theorem quota_retry_once:
  assumes "outcome b (length (writes b)) = QuotaExceededError"
  shows "writes (snd (saveToLocalStorage (js ''learningTabs'') data b))
           = writes b @ [(js ''learningTabs'', JSON_stringify data),
                         (js ''learningTabs'', JSON_stringify (strippedData data))]
       \<and> map t_fileData (strippedData data) = replicate (length data) None
       \<and> map (\<lambda>t. t\<lparr> t_fileData := None \<rparr>) data = strippedData data
       \<and> (if outcome b (Suc (length (writes b))) = Stored
          then fst (saveToLocalStorage (js ''learningTabs'') data b)
             \<and> items (snd (saveToLocalStorage (js ''learningTabs'') data b))
                 = (items b)(js ''learningTabs'' \<mapsto> JSON_stringify (strippedData data))
             \<and> alerts (snd (saveToLocalStorage (js ''learningTabs'') data b)) = alerts b @ [quota_notice]
          else \<not> fst (saveToLocalStorage (js ''learningTabs'') data b)
             \<and> items (snd (saveToLocalStorage (js ''learningTabs'') data b)) = items b
             \<and> alerts (snd (saveToLocalStorage (js ''learningTabs'') data b)) = alerts b
             \<and> (\<exists>l. console (snd (saveToLocalStorage (js ''learningTabs'') data b))
                       = l @ [Error_saving, Error_retry_failed]))"
proof -
  have "map t_fileData (strippedData data) = replicate (length data) None"
    by (induction data) (simp_all add: strippedData_def)
  with assms show ?thesis
    by (simp add: saveToLocalStorage_def setItem_def Let_def log_def alert_def strippedData_def)
qed

theorem quota_retry_once_witness:
  "outcome \<lparr> items = Map.empty, outcome = (\<lambda>n. if n = 0 then QuotaExceededError else Stored),
             writes = [], alerts = [], console = [], blob_size = (\<lambda>j. 0) \<rparr> (length ([] :: (jsstring \<times> json) list))
     = QuotaExceededError \<and>
   saveToLocalStorage (js ''learningTabs'')
     [\<lparr> t_id = js ''1'', t_title = js ''a.pdf'', t_content = js ''x'', t_visualizations = [],
        t_fileData = Some (js ''JVBERi0='') \<rparr>]
     \<lparr> items = Map.empty, outcome = (\<lambda>n. if n = 0 then QuotaExceededError else Stored),
       writes = [], alerts = [], console = [], blob_size = (\<lambda>j. 0) \<rparr>
   = (True,
      \<lparr> items = [js ''learningTabs'' \<mapsto> JSON_stringify
                 [\<lparr> t_id = js ''1'', t_title = js ''a.pdf'', t_content = js ''x'', t_visualizations = [],
                    t_fileData = None \<rparr>]],
        outcome = (\<lambda>n. if n = 0 then QuotaExceededError else Stored),
        writes = [(js ''learningTabs'', JSON_stringify
                     [\<lparr> t_id = js ''1'', t_title = js ''a.pdf'', t_content = js ''x'', t_visualizations = [],
                        t_fileData = Some (js ''JVBERi0='') \<rparr>]),
                  (js ''learningTabs'', JSON_stringify
                     [\<lparr> t_id = js ''1'', t_title = js ''a.pdf'', t_content = js ''x'', t_visualizations = [],
                        t_fileData = None \<rparr>])],
        alerts = [quota_notice], console = [Error_saving, Warn_saved_without_file_data],
        blob_size = (\<lambda>j. 0) \<rparr>)"
  using quota_retry_once [of
     "\<lparr> items = Map.empty, outcome = (\<lambda>n. if n = 0 then QuotaExceededError else Stored),
       writes = [], alerts = [], console = [], blob_size = (\<lambda>j. 0) \<rparr>"
     "[\<lparr> t_id = js ''1'', t_title = js ''a.pdf'', t_content = js ''x'', t_visualizations = [],
        t_fileData = Some (js ''JVBERi0='') \<rparr>]"]
  by (simp add: saveToLocalStorage_def setItem_def Let_def log_def alert_def strippedData_def)

text \<open>
  C5.  Saving a list of \<open>N\<close> sessions whose statuses are of the declared type, and loading
  it on the next start, restores a state with \<open>N\<close> sessions that have the same ids, titles
  and prose and the same artifacts, an artifact without a status getting \<^verbatim>\<open>'ready'\<close>; the
  last session of the list becomes the active one.  (For the empty list the entry is removed
  and the start state stays.)  The save is one that went through: it returned \<^verbatim>\<open>true\<close>.
\<close>

theorem persist_restore_roundtrip:
  assumes "tabs = [] \<or> fst (saveToLocalStorage (js ''learningTabs'') tabs b)"
    and "\<forall>t \<in> set tabs. \<forall>v \<in> set (t_visualizations t). status_typed v"
  shows "\<exists>b' st'. load_effect (save_effect tabs b) initial_state = Some (b', st')
     \<and> length (s_learningTabs st') = length tabs
     \<and> map t_id (s_learningTabs st') = map t_id tabs
     \<and> map t_title (s_learningTabs st') = map t_title tabs
     \<and> map t_content (s_learningTabs st') = map t_content tabs
     \<and> map t_visualizations (s_learningTabs st') = map (\<lambda>t. map default_status (t_visualizations t)) tabs
     \<and> s_activeTab st' = (if tabs = [] then None else Some (t_id (last tabs)))"
proof (cases "tabs = []")
  case True
  with save_empty_then_load [of b] show ?thesis by (simp add: initial_state_def)
next
  case False
  with assms(1) have ok: "fst (saveToLocalStorage (js ''learningTabs'') tabs b)" by simp
  from save_then_load [OF ok False] obtain kept
    where k: "kept = tabs \<or> kept = strippedData tabs"
      and l: "load_effect (save_effect tabs b) initial_state =
             Some (save_effect tabs b,
                   \<lparr> s_learningTabs = map restore_tab kept, s_activeTab = Some (t_id (last tabs)),
                     s_view = Content \<rparr>)" by blast
  from k have m: "length kept = length tabs" "map t_id kept = map t_id tabs"
    "map t_title kept = map t_title tabs" "map t_content kept = map t_content tabs"
    "map t_visualizations kept = map t_visualizations tabs"
    by (auto simp: stripped_simps)
  have "map (\<lambda>t. map restore_vis (t_visualizations t)) kept
          = map (map restore_vis) (map t_visualizations kept)" by simp
  also have "\<dots> = map (map restore_vis) (map t_visualizations tabs)" by (simp only: m)
  also have "\<dots> = map (\<lambda>t. map default_status (t_visualizations t)) tabs"
    using assms(2) by (simp add: restore_vis_typed)
  finally have v: "map (\<lambda>t. map restore_vis (t_visualizations t)) kept
          = map (\<lambda>t. map default_status (t_visualizations t)) tabs" .
  from l m v False show ?thesis
    using restore_simps [of kept] by simp
qed

theorem persist_restore_roundtrip_witness:
  "(let tabs = [\<lparr> t_id = js ''1'', t_title = js ''a.pdf'', t_content = js ''x'',
                  t_visualizations = [\<lparr> v_id = js ''abc'', v_description = js ''d'', v_code = js ''c'',
                                         v_status = None, v_error = None \<rparr>],
                  t_fileData = Some (js ''JVBERi0='') \<rparr>];
        b = \<lparr> items = Map.empty, outcome = (\<lambda>n. Stored), writes = [], alerts = [], console = [],
              blob_size = (\<lambda>j. 0) \<rparr>
    in fst (saveToLocalStorage (js ''learningTabs'') tabs b)
     \<and> (\<forall>t \<in> set tabs. \<forall>v \<in> set (t_visualizations t). status_typed v)
     \<and> (\<exists>b' st'. load_effect (save_effect tabs b) initial_state = Some (b', st')
          \<and> map t_content (s_learningTabs st') = [js ''x'']
          \<and> map t_visualizations (s_learningTabs st')
              = [[\<lparr> v_id = js ''abc'', v_description = js ''d'', v_code = js ''c'',
                    v_status = Some (js ''ready''), v_error = None \<rparr>]]
          \<and> s_activeTab st' = Some (js ''1'')))"
  using persist_restore_roundtrip [of
      "[\<lparr> t_id = js ''1'', t_title = js ''a.pdf'', t_content = js ''x'',
          t_visualizations = [\<lparr> v_id = js ''abc'', v_description = js ''d'', v_code = js ''c'',
                                 v_status = None, v_error = None \<rparr>],
          t_fileData = Some (js ''JVBERi0='') \<rparr>]"
      "\<lparr> items = Map.empty, outcome = (\<lambda>n. Stored), writes = [], alerts = [], console = [],
         blob_size = (\<lambda>j. 0) \<rparr>"]
  by (auto simp add: saveToLocalStorage_def setItem_def Let_def status_typed_def default_status_def)

text \<open>
  C7.  A session created from a file of 5 MB (\<open>5 * 1024 * 1024\<close> bytes) or more is created
  without \<^verbatim>\<open>fileData\<close>, whatever the size of the serialised list; and after any save that
  went through and the load that follows, the session, found at its place in the restored
  list under its id, still has none.
\<close>

theorem large_file_not_cached:
  assumes "5 * 1024 * 1024 \<le> f_size fl"
  shows "t_fileData (newTab fl base64Data paperContent extracted newTabId) = None
     \<and> (fst (saveToLocalStorage (js ''learningTabs'')
               (handleBeginLearning fl base64Data paperContent extracted newTabId prev @ later) b) \<longrightarrow>
          (\<exists>b' st'. load_effect
                  (save_effect (handleBeginLearning fl base64Data paperContent extracted newTabId prev @ later) b)
                  initial_state = Some (b', st')
            \<and> length prev < length (s_learningTabs st')
            \<and> t_id (s_learningTabs st' ! length prev) = newTabId
            \<and> t_fileData (s_learningTabs st' ! length prev) = None))"
proof (intro conjI impI)
  let ?new = "newTab fl base64Data paperContent extracted newTabId"
  let ?tabs = "handleBeginLearning fl base64Data paperContent extracted newTabId prev @ later"
  from assms show n: "t_fileData ?new = None" by (simp add: newTab_def)
  have i: "t_id ?new = newTabId" by (simp add: newTab_def)
  have at: "?tabs ! length prev = ?new" and len: "length prev < length ?tabs" and ne: "?tabs \<noteq> []"
    by (simp_all add: handleBeginLearning_def nth_append)
  assume ok: "fst (saveToLocalStorage (js ''learningTabs'') ?tabs b)"
  from save_then_load [OF ok ne] obtain kept
    where k: "kept = ?tabs \<or> kept = strippedData ?tabs"
      and l: "load_effect (save_effect ?tabs b) initial_state =
             Some (save_effect ?tabs b,
                   \<lparr> s_learningTabs = map restore_tab kept, s_activeTab = Some (t_id (last ?tabs)),
                     s_view = Content \<rparr>)"
    by blast
  from k len have lk: "length prev < length kept" by (auto simp: stripped_simps)
  from len have "strippedData ?tabs ! length prev = (?tabs ! length prev)\<lparr> t_fileData := None \<rparr>"
    unfolding strippedData_def by (rule nth_map)
  with k at have "kept ! length prev = ?new \<or> kept ! length prev = ?new\<lparr> t_fileData := None \<rparr>"
    by (auto simp only:)
  with n i have "t_id (kept ! length prev) = newTabId \<and> t_fileData (kept ! length prev) = None"
    by auto
  then have r: "t_id (restore_tab (kept ! length prev)) = newTabId"
      "t_fileData (restore_tab (kept ! length prev)) = None"
    by (simp_all add: restore_tab_def)
  from l lk r show "\<exists>b' st'. load_effect (save_effect ?tabs b) initial_state = Some (b', st')
            \<and> length prev < length (s_learningTabs st')
            \<and> t_id (s_learningTabs st' ! length prev) = newTabId
            \<and> t_fileData (s_learningTabs st' ! length prev) = None"
    by simp
qed

theorem large_file_not_cached_witness:
  "(let fl = \<lparr> f_name = js ''big.pdf'', f_size = 5242880 \<rparr>;
        b = \<lparr> items = Map.empty, outcome = (\<lambda>n. Stored), writes = [], alerts = [], console = [],
              blob_size = (\<lambda>j. 0) \<rparr>;
        tabs = handleBeginLearning fl (js ''JVBERi0='') (js ''prose'') [] (js ''1700000000000'') [] @ []
    in 5 * 1024 * 1024 \<le> f_size fl
     \<and> fst (saveToLocalStorage (js ''learningTabs'') tabs b)
     \<and> t_fileData (newTab fl (js ''JVBERi0='') (js ''prose'') [] (js ''1700000000000'')) = None
     \<and> (\<exists>b' st'. load_effect (save_effect tabs b) initial_state = Some (b', st')
          \<and> t_fileData (s_learningTabs st' ! length ([] :: LearningTab list)) = None))"
  using large_file_not_cached [of "\<lparr> f_name = js ''big.pdf'', f_size = 5242880 \<rparr>"
      "js ''JVBERi0=''" "js ''prose''" "[]" "js ''1700000000000''" "[]" "[]"
      "\<lparr> items = Map.empty, outcome = (\<lambda>n. Stored), writes = [], alerts = [], console = [],
         blob_size = (\<lambda>j. 0) \<rparr>"]
  by (auto simp add: saveToLocalStorage_def setItem_def Let_def handleBeginLearning_def newTab_def)

section \<open>The Placeholder Protocol: what survives the replacements\<close>

subsection \<open>Words that cannot overlap\<close>











subsection \<open>Replacement strings without a dollar\<close>




subsection \<open>Replacing the first occurrence of a string\<close>



lemma replace_str_absent: "find_sub pat [] s = None \<Longrightarrow> replace_str s pat t = s"
  by (simp add: replace_str_def)





subsection \<open>The clean-up of leftover braces\<close>



subsection \<open>What the expressions of the protocol match\<close>












subsection \<open>The characters of \<^verbatim>\<open>encodeURIComponent\<close>\<close>





subsection \<open>The fragment of a ready artifact\<close>






subsection \<open>The loop over the placeholders\<close>





subsection \<open>Markdown passes that change nothing\<close>

lemma set_js: "set (js w) = of_char ` set w"
  by (simp add: js_def)

lemmas needs_simps = line_re_def li_re_def plus_def flag_m_def plain_def set_js

text \<open>
  Prose without the characters \<^verbatim>\<open># * - . <\<close> and the backquote goes through the passes
  for headers and lists unchanged.
\<close>

lemma markdown_without_lists:
  assumes "set text \<inter> {35, 42, 45, 46, 60} = {}"
  shows \<open>markdownToHtml text =
     replace_re plain
       (seqs [Group 1 some, Lit [10],
              Ahead False (Alt (seqs [Lit (js ''<''), opt (Lit (js ''/'')), CSet False [Range 97 122]]) Eol)])
       1 (js ''$1<br>'')
     (replace_re plain (Lit (js ''</p></p>'')) 0 (js ''</p>'')
     (replace_re plain (Lit (js ''<p><p>'')) 0 (js ''<p>'')
     (replace_re flag_m (seqs [Bol, Ahead False block_start_re, some, Eol]) 1 (js ''<p>$&</p>'')
     (replace_re plain (seqs [Lit (js ''`''), Group 1 (plus True (CSet True [One 96])), Lit (js ''`'')]) 1
                  (js ''<code>$1</code>'')
     (replace_re plain
                  (seqs [Lit (js ''```''), Group 1 (Star True (CSet False [Range 97 122, Range 65 90])),
                         Group 2 (Star False (CSet False [SpaceCls, NonSpaceCls])), Lit (js ''```'')]) 2
                  (js ''<div class="code-block"><div class="code-lang">$1</div><pre>$2</pre></div>'')
     (replace_re plain (seqs [Lit (js ''_''), Group 1 some_lazy, Lit (js ''_'')]) 1
                  (js ''<em>$1</em>'')
     (replace_re plain (seqs [Lit (js ''*''), Group 1 some_lazy, Lit (js ''*'')]) 1
                  (js ''<em>$1</em>'')
     (replace_re plain (seqs [Lit (js ''__''), Group 1 some_lazy, Lit (js ''__'')]) 1
                  (js ''<strong>$1</strong>'') text))))))))\<close>
proof -
  from assms have a: "35 \<notin> set text" "42 \<notin> set text" "45 \<notin> set text" "46 \<notin> set text" "60 \<notin> set text"
    by auto
  show ?thesis
    unfolding markdownToHtml_def Let_def
    by (simp add: a replace_re_absent [where c = 35] replace_re_absent [where c = 42]
        replace_re_absent [where c = 45] replace_re_absent [where c = 46] replace_re_absent [where c = 60]
        needs_simps)
qed



lemmas re_eval = replace_re_def replace_cb_def first_match_def plus_def opt_def
  flag_m_def plain_def ch_eq_def in_items_def isWhiteSpace_def isLineTerminator_def
  startsWith_def no_caps_def clear_def to_str_def js_def cap_text_def is_digit_def
  block_start_re_def

section \<open>The Placeholder Protocol: the claims\<close>







lemma md_underscores: "markdownToHtml (js ''{{VISUALIZATION:my_chart_1:Sales}}'')
    = js ''<p>{{VISUALIZATION:my<em>chart</em>1:Sales}}</p>''"
proof -
  let ?t = "js ''{{VISUALIZATION:my_chart_1:Sales}}''"
  let ?u = "js ''{{VISUALIZATION:my<em>chart</em>1:Sales}}''"
  let ?p = "js ''<p>{{VISUALIZATION:my<em>chart</em>1:Sales}}</p>''"
  have 1: "replace_re plain (seqs [Lit (js ''__''), Group 1 some_lazy, Lit (js ''__'')]) 1
                  (js ''<strong>$1</strong>'') ?t = ?t"
    by (simp add: re_eval)
  have 2: "replace_re plain (seqs [Lit (js ''*''), Group 1 some_lazy, Lit (js ''*'')]) 1
                  (js ''<em>$1</em>'') ?t = ?t"
    by (rule replace_re_absent [where c = 42]) (simp_all add: needs_simps)
  have 3: "replace_re plain (seqs [Lit (js ''_''), Group 1 some_lazy, Lit (js ''_'')]) 1
                  (js ''<em>$1</em>'') ?t = ?u"
    by (simp add: re_eval)
  have 4: \<open>replace_re plain
                  (seqs [Lit (js ''```''), Group 1 (Star True (CSet False [Range 97 122, Range 65 90])),
                         Group 2 (Star False (CSet False [SpaceCls, NonSpaceCls])), Lit (js ''```'')]) 2
                  (js ''<div class="code-block"><div class="code-lang">$1</div><pre>$2</pre></div>'') ?u = ?u\<close>
    by (rule replace_re_absent [where c = 96]) (simp_all add: needs_simps)
  have 5: "replace_re plain (seqs [Lit (js ''`''), Group 1 (plus True (CSet True [One 96])), Lit (js ''`'')]) 1
                  (js ''<code>$1</code>'') ?u = ?u"
    by (rule replace_re_absent [where c = 96]) (simp_all add: needs_simps)
  have 6: "replace_re flag_m (seqs [Bol, Ahead False block_start_re, some, Eol]) 1 (js ''<p>$&</p>'') ?u = ?p"
    by (simp add: re_eval)
  have 7: "replace_re plain (Lit (js ''<p><p>'')) 0 (js ''<p>'') ?p = ?p"
    by (simp add: re_eval)
  have 8: "replace_re plain (Lit (js ''</p></p>'')) 0 (js ''</p>'') ?p = ?p"
    by (simp add: re_eval)
  have 9: "replace_re plain
       (seqs [Group 1 some, Lit [10],
              Ahead False (Alt (seqs [Lit (js ''<''), opt (Lit (js ''/'')), CSet False [Range 97 122]]) Eol)])
       1 (js ''$1<br>'') ?p = ?p"
    by (rule replace_re_absent [where c = 10]) (simp_all add: needs_simps)
  have "set ?t \<inter> {35, 42, 45, 46, 60} = {}" by (simp add: js_def)
  from markdown_without_lists [OF this] show ?thesis
    by (simp only: 1 2 3 4 5 6 7 8 9)
qed

text \<open>
  C8 (the code differs).  The marker of an artifact that the session does not have, with
  an id that has two underscores: the Markdown conversion reads the underscores as
  emphasis and rewrites the marker, the replacement does not find it, and the clean-up
  removes what is left.  The result has no fragment for the marker at all.
\<close>

theorem mangled_marker_dropped:
  "formatResponse with_file (js ''{{VISUALIZATION:my_chart_1:Sales}}'') [] = Some (js ''<p></p>'')"
proof -
  have p: "placeholdersInText (js ''{{VISUALIZATION:my_chart_1:Sales}}'') = [(js ''my_chart_1'', js ''Sales'')]"
    by (simp add: placeholdersInText_def placeholderRegex_def re_eval)
  have f: "find_sub (placeholderTag (js ''my_chart_1'') (js ''Sales'')) []
             (js ''<p>{{VISUALIZATION:my<em>chart</em>1:Sales}}</p>'') = None"
    by (simp add: placeholderTag_def startsWith_def js_def)
  have c: "replace_re plain leftover_re 0 [] (js ''<p>{{VISUALIZATION:my<em>chart</em>1:Sales}}</p>'')
      = js ''<p></p>''"
    by (simp add: leftover_re_def re_eval)
  show ?thesis
    by (simp add: formatResponse_def md_underscores p replacementHtml_def replace_str_absent [OF f] c)
qed





end
